theory Spec2Isabelle
  imports Main "HOL-Library.Char_ord" "HOL-Library.List_Lexorder"
begin

section \<open>The typed key-value store of kvstore.go\<close>

subsection \<open>Byte strings, errors and outcomes\<close>

text \<open>
  A Go \<open>string\<close> and a Go \<open>[]byte\<close> are both sequences of 8-bit bytes, and so is a HOL
  \<open>string\<close>. The conversions \<open>[]byte(key)\<close> and \<open>string(k)\<close> of the source are the identity
  here. Keys are compared as the engine compares them (\<open>bytes.Compare\<close>): bytewise,
  lexicographically, a proper prefix first. That is the order of \<open>'a list\<close> over the byte
  order of \<open>char\<close>.
\<close>

type_synonym bytes = string

text \<open>
  The errors a call of the store can return: the two sentinels of kvstore.go, the engine's
  argument errors that \<open>Put\<close> and \<open>AddBucket\<close> pass on unchanged, and whatever the gob
  decoder reports.
\<close>

datatype error =
    ErrNotFound
  | ErrBadValue
  | ErrBucketNameRequired
  | ErrKeyRequired
  | ErrKeyTooLarge
  | ErrValueTooLarge
  | ErrGobDecode

text \<open>
  A Go call either returns or panics. None of the functions of kvstore.go recovers a panic,
  and neither do the engine's \<open>View\<close> and \<open>Update\<close> (they roll the transaction back and let
  the panic go on).
\<close>

datatype 'a outcome = Return 'a | Panic

subsection \<open>The storage engine as kvstore.go uses it\<close>

text \<open>
  The engine (BoltDB) keeps the entries of a bucket sorted by key. A bucket is the sorted
  sequence of its entries; the top level of the file is such a sequence too, of buckets by
  name. kvstore.go creates top-level buckets only and writes plain entries into them only,
  so a top-level entry is always a bucket and a bucket entry is always a plain value.
\<close>

type_synonym 'a node = "(bytes \<times> 'a) list"
type_synonym bucket = "bytes node"

text \<open>The cursor walk: the first entry whose key is at or after the one sought.\<close>

fun seek :: "'a node \<Rightarrow> bytes \<Rightarrow> (bytes \<times> 'a) option" where
  "seek [] key = None"
| "seek ((k, v) # rest) key = (if key \<le> k then Some (k, v) else seek rest key)"

text \<open>
  Writing an entry: at the position the walk stops at, replacing the entry there when it
  has the same key and inserting before it otherwise.
\<close>

fun node_put :: "'a node \<Rightarrow> bytes \<Rightarrow> 'a \<Rightarrow> 'a node" where
  "node_put [] key value = [(key, value)]"
| "node_put ((k, v) # rest) key value =
     (if key \<le> k then (if k = key then (key, value) # rest else (key, value) # (k, v) # rest)
      else (k, v) # node_put rest key value)"

text \<open>Removing an entry: the one the walk stops at, when it has the key; nothing otherwise.\<close>

fun node_del :: "'a node \<Rightarrow> bytes \<Rightarrow> 'a node" where
  "node_del [] key = []"
| "node_del ((k, v) # rest) key =
     (if key \<le> k then (if k = key then rest else (k, v) # rest)
      else (k, v) # node_del rest key)"

definition MaxKeySize :: nat where
  "MaxKeySize = 32768"

definition MaxValueSize :: nat where
  "MaxValueSize = 2 ^ 31 - 2"

text \<open>
  \<open>tx.Bucket(name)\<close>: the bucket of that name, or nil (\<open>None\<close>) when there is none.
\<close>

definition Tx_Bucket :: "bucket node \<Rightarrow> bytes \<Rightarrow> bucket option" where
  "Tx_Bucket root name =
     (case seek root name of
        None \<Rightarrow> None
      | Some (k, b) \<Rightarrow> if k = name then Some b else None)"

text \<open>
  \<open>tx.CreateBucketIfNotExists(name)\<close>: refuses the empty name, leaves an existing bucket
  alone and creates an empty one otherwise.
\<close>

definition CreateBucketIfNotExists :: "bucket node \<Rightarrow> bytes \<Rightarrow> error + bucket node" where
  "CreateBucketIfNotExists root name =
     (if length name = 0 then Inl ErrBucketNameRequired
      else case Tx_Bucket root name of
             Some b \<Rightarrow> Inr root
           | None \<Rightarrow> Inr (node_put root name []))"

text \<open>
  \<open>b.Put(key, value)\<close>: refuses a blank key, a key longer than \<open>MaxKeySize\<close> and a value
  longer than \<open>MaxValueSize\<close>, in that order, and writes the entry otherwise.
\<close>

definition Bucket_Put :: "bucket \<Rightarrow> bytes \<Rightarrow> bytes \<Rightarrow> error + bucket" where
  "Bucket_Put b key value =
     (if length key = 0 then Inl ErrKeyRequired
      else if length key > MaxKeySize then Inl ErrKeyTooLarge
      else if length value > MaxValueSize then Inl ErrValueTooLarge
      else Inr (node_put b key value))"

text \<open>
  \<open>c.Seek(key)\<close> returns the pair \<open>(k, v)\<close> of the entry the walk stops at, and
  \<open>(nil, nil)\<close> when it runs off the end. The engine returns a nil \<open>v\<close> with a non-nil \<open>k\<close>
  only for a nested bucket, which a bucket of this store never holds.
\<close>

definition Cursor_Seek :: "bucket \<Rightarrow> bytes \<Rightarrow> bytes option \<times> bytes option" where
  "Cursor_Seek b key =
     (case seek b key of
        None \<Rightarrow> (None, None)
      | Some (k, v) \<Rightarrow> (Some k, Some v))"

text \<open>\<open>c.Delete()\<close> with the cursor on key \<open>k\<close>: removes that entry.\<close>

definition Cursor_Delete :: "bucket \<Rightarrow> bytes \<Rightarrow> bucket" where
  "Cursor_Delete b k = node_del b k"

text \<open>
  The open database: its buckets, and the transactions begun on it so far, newest first.
  The second field is a history kept for the proofs (the engine counts its transactions
  too); no function of the store reads it.
\<close>

datatype tx = ReadTx | WriteTx

record DB =
  buckets :: "bucket node"
  txs :: "tx list"

text \<open>
  \<open>KVStore\<close> is a struct of one field, the handle of the open database; the model passes
  the database itself.
\<close>

type_synonym KVStore = DB

text \<open>
  \<open>db.Update(fn)\<close> runs \<open>fn\<close> in a read-write transaction: an error from \<open>fn\<close> rolls it
  back and is returned, a nil error commits what \<open>fn\<close> wrote, a panic rolls it back and
  goes on. \<open>db.View(fn)\<close> runs \<open>fn\<close> in a read-only transaction and returns what it
  returns. The model is of an open database on a disk that works: the engine's own
  failures (a closed handle, an I/O error at commit) are outside it.
\<close>

definition Update ::
  "DB \<Rightarrow> (bucket node \<Rightarrow> (error option \<times> bucket node) outcome) \<Rightarrow> error option outcome \<times> DB"
where
  "Update db fn =
     (let db' = db\<lparr>txs := WriteTx # txs db\<rparr> in
      case fn (buckets db) of
        Panic \<Rightarrow> (Panic, db')
      | Return (Some e, root') \<Rightarrow> (Return (Some e), db')
      | Return (None, root') \<Rightarrow> (Return None, db'\<lparr>buckets := root'\<rparr>))"

definition View :: "DB \<Rightarrow> (bucket node \<Rightarrow> 'r outcome) \<Rightarrow> 'r outcome \<times> DB" where
  "View db fn = (fn (buckets db), db\<lparr>txs := ReadTx # txs db\<rparr>)"

subsection \<open>The gob codec\<close>

text \<open>
  \<open>encoding/gob\<close> is a parameter of the model. A fresh encoder given a value writes its
  bytes, or returns an error, or panics: gob panics on a nil pointer, whatever its type,
  and an interface holding a nil pointer is not the nil interface.
\<close>

datatype encoded = Encoded bytes | EncodeError | EncodePanic

text \<open>
  \<open>Encode v\<close> is what the encoder does with \<open>v\<close>. \<open>Decode bs dest\<close> is what a fresh decoder
  over \<open>bs\<close> does with the destination \<open>dest\<close> (\<open>None\<close> for a nil interface, \<open>Some d\<close> for
  a pointer to a variable holding \<open>d\<close>): the error it returns and what the destination
  holds afterwards.
\<close>

record 'v gob =
  Encode :: "'v \<Rightarrow> encoded"
  Decode :: "bytes \<Rightarrow> 'v option \<Rightarrow> error option \<times> 'v option"

subsection \<open>AddBucket, Put, Get and Delete\<close>

definition AddBucket :: "KVStore \<Rightarrow> bytes \<Rightarrow> error option outcome \<times> KVStore" where
  "AddBucket kvs bucket =
     Update kvs (\<lambda>root.
       case CreateBucketIfNotExists root bucket of
         Inl err \<Rightarrow> Return (Some err, root)
       | Inr root' \<Rightarrow> Return (None, root'))"

text \<open>
  \<open>Put\<close>: a nil value (\<open>None\<close>) is refused first; then the bucket is made sure of; then the
  value is encoded: a panic of the encoder goes on through \<open>Put\<close>, which does not recover,
  and an encoder error makes \<open>Put\<close> return nil; then the entry is written in a transaction
  of its own. A method called on the nil bucket panics.
\<close>

definition Put ::
  "'v gob \<Rightarrow> KVStore \<Rightarrow> bytes \<Rightarrow> bytes \<Rightarrow> 'v option \<Rightarrow> error option outcome \<times> KVStore"
where
  "Put g kvs bucket key value =
     (case value of
        None \<Rightarrow> (Return (Some ErrBadValue), kvs)
      | Some v \<Rightarrow>
          (case AddBucket kvs bucket of
             (Panic, kvs1) \<Rightarrow> (Panic, kvs1)
           | (Return (Some err), kvs1) \<Rightarrow> (Return (Some err), kvs1)
           | (Return None, kvs1) \<Rightarrow>
               (case Encode g v of
                  EncodePanic \<Rightarrow> (Panic, kvs1)
                | EncodeError \<Rightarrow> (Return None, kvs1)
                | Encoded buf \<Rightarrow>
                    Update kvs1 (\<lambda>root.
                      case Tx_Bucket root bucket of
                        None \<Rightarrow> Panic
                      | Some b \<Rightarrow>
                          (case Bucket_Put b key buf of
                             Inl err \<Rightarrow> Return (Some err, root)
                           | Inr b' \<Rightarrow> Return (None, node_put root bucket b'))))))"

text \<open>
  \<open>Get\<close> returns the error, what the destination holds afterwards and the database. Taking
  the cursor of the nil bucket panics. The test before decoding is on \<open>v\<close>, the stored
  bytes the cursor returned.
\<close>

definition Get ::
  "'v gob \<Rightarrow> KVStore \<Rightarrow> bytes \<Rightarrow> bytes \<Rightarrow> 'v option \<Rightarrow>
     error option outcome \<times> 'v option \<times> KVStore"
where
  "Get g kvs bucket key value =
     (case View kvs (\<lambda>root.
             case Tx_Bucket root bucket of
               None \<Rightarrow> Panic
             | Some b \<Rightarrow>
                 (case Cursor_Seek b key of
                    (None, v) \<Rightarrow> Return (Some ErrNotFound, value)
                  | (Some k, v) \<Rightarrow>
                      if k \<noteq> key then Return (Some ErrNotFound, value)
                      else (case v of
                              None \<Rightarrow> Return (None, value)
                            | Some stored \<Rightarrow> Return (Decode g stored value))))
      of
        (Panic, kvs') \<Rightarrow> (Panic, value, kvs')
      | (Return (err, value'), kvs') \<Rightarrow> (Return err, value', kvs'))"

definition Delete :: "KVStore \<Rightarrow> bytes \<Rightarrow> bytes \<Rightarrow> error option outcome \<times> KVStore" where
  "Delete kvs bucket key =
     Update kvs (\<lambda>root.
       case Tx_Bucket root bucket of
         None \<Rightarrow> Panic
       | Some b \<Rightarrow>
           (case Cursor_Seek b key of
              (None, v) \<Rightarrow> Return (Some ErrNotFound, root)
            | (Some k, v) \<Rightarrow>
                if k \<noteq> key then Return (Some ErrNotFound, root)
                else Return (None, node_put root bucket (Cursor_Delete b k))))"

text \<open>A store just opened on a fresh path: no bucket, no transaction yet.\<close>

definition NewKVStore :: KVStore where
  "NewKVStore = \<lparr>buckets = [], txs = []\<rparr>"

subsection \<open>Stores the calls can build\<close>

text \<open>
  The engine's invariant on a sequence of entries: keys strictly increasing, so no key
  twice. A database is well formed when its top level and each of its buckets are.
\<close>

definition wf_node :: "'a node \<Rightarrow> bool" where
  "wf_node xs = sorted_wrt (<) (map fst xs)"

definition wf_db :: "KVStore \<Rightarrow> bool" where
  "wf_db kvs = (wf_node (buckets kvs) \<and> (\<forall>e \<in> set (buckets kvs). wf_node (snd e)))"

text \<open>
  Every stored value is a stream the decoder reads to its end without error when the
  destination is nil.
\<close>

definition gob_clean :: "'v gob \<Rightarrow> KVStore \<Rightarrow> bool" where
  "gob_clean g kvs =
     (\<forall>e \<in> set (buckets kvs). \<forall>kv \<in> set (snd e). Decode g (snd kv) None = (None, None))"

text \<open>
  The documented behaviour of \<open>(*Decoder).Decode\<close> on a nil destination: the value is read
  and discarded. Stated for the streams the encoder writes.
\<close>

definition discards_on_nil :: "'v gob \<Rightarrow> bool" where
  "discards_on_nil g = (\<forall>v bs. Encode g v = Encoded bs \<longrightarrow> Decode g bs None = (None, None))"

text \<open>The key is present: its bucket exists and holds an entry under it.\<close>

definition has_key :: "KVStore \<Rightarrow> bytes \<Rightarrow> bytes \<Rightarrow> bool" where
  "has_key kvs bucket key =
     (case Tx_Bucket (buckets kvs) bucket of
        None \<Rightarrow> False
      | Some b \<Rightarrow> key \<in> fst ` set b)"

text \<open>
  The stores that calls of the API build from a freshly opened one. A call that panics
  ends the run (nothing in the repository recovers), so a store is built by calls that
  returned.
\<close>

inductive reachable :: "'v gob \<Rightarrow> KVStore \<Rightarrow> bool" for g :: "'v gob" where
  fresh: "reachable g NewKVStore"
| by_AddBucket:
    "reachable g kvs \<Longrightarrow> AddBucket kvs bucket = (Return err, kvs') \<Longrightarrow> reachable g kvs'"
| by_Put:
    "reachable g kvs \<Longrightarrow> Put g kvs bucket key value = (Return err, kvs') \<Longrightarrow> reachable g kvs'"
| by_Get:
    "reachable g kvs \<Longrightarrow> Get g kvs bucket key dest = (Return err, dest', kvs') \<Longrightarrow>
     reachable g kvs'"
| by_Delete:
    "reachable g kvs \<Longrightarrow> Delete kvs bucket key = (Return err, kvs') \<Longrightarrow> reachable g kvs'"

subsection \<open>A small codec to run the store on\<close>

text \<open>
  Values are strings, or a channel, which gob refuses to encode with an error, or a nil
  pointer, on which gob panics. A string is written as a tag byte and its bytes.
\<close>

datatype demo_val = DStr string | DChan | DNilPtr

definition demo_gob :: "demo_val gob" where
  "demo_gob =
     \<lparr>Encode = (\<lambda>v. case v of
                        DStr s \<Rightarrow> Encoded (CHR ''s'' # s)
                      | DChan \<Rightarrow> EncodeError
                      | DNilPtr \<Rightarrow> EncodePanic),
      Decode = (\<lambda>bs dest.
        case bs of
          [] \<Rightarrow> (Some ErrGobDecode, dest)
        | c # s \<Rightarrow>
            if c = CHR ''s''
            then (case dest of None \<Rightarrow> (None, None) | Some d \<Rightarrow> (None, Some (DStr s)))
            else (Some ErrGobDecode, dest))\<rparr>"

section \<open>The poll loop\<close>

subsection \<open>The dedup cache and its eviction pass\<close>

text \<open>
  A \<open>time.Time\<close> is an instant, counted here in nanoseconds; a \<open>time.Duration\<close> is a
  64-bit count of nanoseconds. \<open>t.Sub(u)\<close> is the difference, and the largest or smallest
  duration when the difference does not fit.
\<close>

definition maxDuration :: int where
  "maxDuration = 2 ^ 63 - 1"

definition minDuration :: int where
  "minDuration = - (2 ^ 63)"

definition Time_Sub :: "int \<Rightarrow> int \<Rightarrow> int" where
  "Time_Sub t u =
     (if t - u > maxDuration then maxDuration
      else if t - u < minDuration then minDuration
      else t - u)"

text \<open>
  Modelled from the spec: the declaration of \<open>Config\<close> is not among the source files. The
  file that uses it reads three fields: \<open>keys\<close>, which it ranges over, indexes by key to
  get a \<open>time.Time\<close> and deletes from; \<open>maxTime\<close>, compared with a duration; and \<open>sleep\<close>,
  passed to \<open>time.Sleep\<close>. The spec calls them the in-memory mapping from an item
  identifier to its last-seen timestamp, the maximum retention duration and the poll
  interval. The mapping is an association list, read with \<open>map_of\<close>.
\<close>

record Config =
  keys :: "(bytes \<times> int) list"
  maxTime :: int
  sleep :: int

text \<open>\<open>delete(m, key)\<close> of Go: the entry under the key is gone, the others stay.\<close>

definition map_delete :: "bytes \<Rightarrow> (bytes \<times> 'a) list \<Rightarrow> (bytes \<times> 'a) list" where
  "map_delete key m = filter (\<lambda>e. fst e \<noteq> key) m"

text \<open>
  The \<open>range\<close> loop of \<open>cleanKeys\<close> over the keys still to visit. Go does not produce a key
  whose entry was removed before the loop reached it.
\<close>

fun cleanKeys_range :: "int \<Rightarrow> bytes list \<Rightarrow> Config \<Rightarrow> Config" where
  "cleanKeys_range now [] conf = conf"
| "cleanKeys_range now (key # rest) conf =
     (case map_of (keys conf) key of
        None \<Rightarrow> cleanKeys_range now rest conf
      | Some t \<Rightarrow>
          if Time_Sub now t > maxTime conf
          then cleanKeys_range now rest (conf\<lparr>keys := map_delete key (keys conf)\<rparr>)
          else cleanKeys_range now rest conf)"

text \<open>\<open>cleanKeys\<close>, with the reading of the clock (\<open>time.Now()\<close>) as an argument.\<close>

definition cleanKeys :: "int \<Rightarrow> Config \<Rightarrow> Config" where
  "cleanKeys now conf = cleanKeys_range now (map fst (keys conf)) conf"

subsection \<open>Fetching and scraping\<close>

text \<open>
  What \<open>http.Get\<close> and reading the body can give: an error, or a response with its status
  code and its body, \<open>None\<close> when \<open>ioutil.ReadAll\<close> fails.
\<close>

datatype http_result = HttpError | HttpResponse int "bytes option"

datatype log_line =
    CouldNotAccess bytes
  | ReceivedHttpError int
  | CouldNotRead bytes
  | CheckingForNewPastes
  | CouldNotParse
  | ParseError string
  | Payload bytes

text \<open>
  Modelled from the spec: \<open>Paste\<close> and its methods \<open>Download\<close> and \<open>Process\<close> are declared in
  a file that is not among the sources. The spec makes them an external collaborator that
  is called for one item and returns. The model records each call, in order, with the
  requests sent and the lines logged.
\<close>

datatype 'p event =
    Requested bytes
  | Logged log_line
  | Downloaded 'p
  | Processed 'p

definition get :: "(bytes \<Rightarrow> http_result) \<Rightarrow> bytes \<Rightarrow> bytes \<times> 'p event list" where
  "get http url =
     (case http url of
        HttpError \<Rightarrow> ([], [Requested url, Logged (CouldNotAccess url)])
      | HttpResponse StatusCode body \<Rightarrow>
          if StatusCode \<noteq> 200
          then ([], [Requested url, Logged (ReceivedHttpError StatusCode)])
          else (case body of
                  None \<Rightarrow> ([], [Requested url, Logged (CouldNotRead url)])
                | Some bs \<Rightarrow> (bs, [Requested url])))"

fun scrape_range :: "'p list \<Rightarrow> 'p event list" where
  "scrape_range [] = []"
| "scrape_range (p # rest) = Downloaded p # Processed p # scrape_range rest"

text \<open>The address \<open>scrape\<close> fetches, a literal in the source.\<close>

definition scrape_url :: bytes where
  "scrape_url = ''https://pastebin.com/api_scraping.php?limit=100''"

text \<open>
  \<open>scrape\<close>, with the network and \<open>json.Unmarshal\<close> as arguments: \<open>unmarshal bs\<close> is the
  error message, if any, and the item list the call leaves in \<open>pastes\<close>.
\<close>

definition scrape ::
  "(bytes \<Rightarrow> http_result) \<Rightarrow> (bytes \<Rightarrow> string option \<times> 'p list) \<Rightarrow> 'p event list"
where
  "scrape http unmarshal =
     (let (resp, fetched) = get http scrape_url;
          (err, pastes) = unmarshal resp
      in case err of
           Some msg \<Rightarrow>
             Logged CheckingForNewPastes # fetched @
               [Logged CouldNotParse, Logged (ParseError msg), Logged (Payload resp)]
         | None \<Rightarrow> Logged CheckingForNewPastes # fetched @ scrape_range pastes)"

text \<open>
  The items a cycle handed to \<open>Download\<close> or \<open>Process\<close>, one for each call, and the number of
  requests it sent.
\<close>

fun processor_calls :: "'p event list \<Rightarrow> 'p list" where
  "processor_calls [] = []"
| "processor_calls (Downloaded p # rest) = p # processor_calls rest"
| "processor_calls (Processed p # rest) = p # processor_calls rest"
| "processor_calls (e # rest) = processor_calls rest"

fun requests_sent :: "'p event list \<Rightarrow> nat" where
  "requests_sent [] = 0"
| "requests_sent (Requested url # rest) = Suc (requests_sent rest)"
| "requests_sent (e # rest) = requests_sent rest"

text \<open>
  A parser to run \<open>scrape\<close> on: it accepts the payload \<open>[]\<close> as the empty list and a
  payload of digits between brackets as one item, and rejects the rest, the empty payload
  included.
\<close>

definition demo_unmarshal :: "bytes \<Rightarrow> string option \<times> nat list" where
  "demo_unmarshal bs =
     (if bs = ''[]'' then (None, [])
      else if bs = ''[1]'' then (None, [1])
      else (Some ''unexpected end of JSON input'', []))"

section \<open>Properties of the engine's sequences\<close>

lemma seek_node_put_same: "seek (node_put xs key v) key = Some (key, v)"
  by (induction xs) auto

lemma node_put_node_put: "node_put (node_put xs k v) k w = node_put xs k w"
  by (induction xs k v rule: node_put.induct) auto

lemma seek_Some_mem: "seek xs key = Some (k, v) \<Longrightarrow> (k, v) \<in> set xs \<and> key \<le> k"
  by (induction xs key rule: seek.induct) (auto split: if_splits)

lemma seek_None_iff: "seek xs key = None \<longleftrightarrow> (\<forall>e \<in> set xs. \<not> key \<le> fst e)"
  by (induction xs key rule: seek.induct) auto

lemma seek_present: "wf_node xs \<Longrightarrow> (k, v) \<in> set xs \<Longrightarrow> seek xs k = Some (k, v)"
  unfolding wf_node_def
proof (induction xs k rule: seek.induct)
  case (1 key)
  then show ?case by simp
next
  case (2 k' v' rest key)
  show ?case
  proof (cases "(key, v) \<in> set rest")
    case True
    with 2 have "k' < key" by force
    then have "\<not> key \<le> k'" by (simp add: not_le)
    with 2 True show ?thesis by simp
  next
    case False
    with 2 have "(key, v) = (k', v')" by simp
    then show ?thesis by simp
  qed
qed

lemma keys_node_put: "fst ` set (node_put xs k v) = insert k (fst ` set xs)"
  by (induction xs k v rule: node_put.induct) auto

lemma set_node_put: "set (node_put xs k v) \<subseteq> insert (k, v) (set xs)"
  by (induction xs k v rule: node_put.induct) auto

lemma set_node_del: "set (node_del xs k) \<subseteq> set xs"
  by (induction xs k rule: node_del.induct) auto

lemma wf_node_put: "wf_node xs \<Longrightarrow> wf_node (node_put xs k v)"
  unfolding wf_node_def
proof (induction xs k v rule: node_put.induct)
  case (1 key "value")
  then show ?case by simp
next
  case (2 k' v' rest key "value")
  show ?case
  proof (cases "key \<le> k'")
    case True
    with 2 show ?thesis by (cases "k' = key") auto
  next
    case False
    then have lt: "k' < key" by simp
    from 2 False have "sorted_wrt (<) (map fst (node_put rest key value))" by simp
    moreover from 2 lt have "\<forall>x \<in> fst ` set (node_put rest key value). k' < x"
      unfolding keys_node_put by auto
    ultimately show ?thesis using False by simp
  qed
qed

lemma wf_node_del: "wf_node xs \<Longrightarrow> wf_node (node_del xs k)"
  unfolding wf_node_def
proof (induction xs k rule: node_del.induct)
  case (1 key)
  then show ?case by simp
next
  case (2 k' v' rest key)
  have sub: "\<And>e. e \<in> set (node_del rest key) \<Longrightarrow> e \<in> set rest"
    using set_node_del [of rest key] by blast
  from 2 show ?case by (auto dest: sub)
qed

lemma keys_node_del: "wf_node xs \<Longrightarrow> fst ` set (node_del xs k) = fst ` set xs - {k}"
  unfolding wf_node_def
proof (induction xs k rule: node_del.induct)
  case (1 key)
  then show ?case by simp
next
  case (2 k' v' rest key)
  show ?case
  proof (cases "key \<le> k'")
    case True
    from 2 have "\<forall>x \<in> fst ` set rest. k' < x" by auto
    with True have "key \<notin> fst ` set rest" by auto
    with True 2 show ?thesis by (cases "k' = key") auto
  next
    case False
    with 2 show ?thesis by auto
  qed
qed

lemma self_le_append: "k \<le> k @ (s::string)"
  by (induction k) auto

section \<open>Properties of the store\<close>

subsection \<open>What each call does, case by case\<close>

lemma Tx_Bucket_node_put: "Tx_Bucket (node_put root name b) name = Some b"
  by (simp add: Tx_Bucket_def seek_node_put_same)

lemma Tx_Bucket_mem: "Tx_Bucket root name = Some b \<Longrightarrow> (name, b) \<in> set root"
  by (auto simp: Tx_Bucket_def split: option.splits if_splits dest: seek_Some_mem)

lemma AddBucket_named:
  "bucket \<noteq> [] \<Longrightarrow>
   AddBucket kvs bucket =
     (Return None,
      \<lparr>buckets = (case Tx_Bucket (buckets kvs) bucket of
                    Some b \<Rightarrow> buckets kvs
                  | None \<Rightarrow> node_put (buckets kvs) bucket []),
       txs = WriteTx # txs kvs\<rparr>)"
  by (simp add: AddBucket_def Update_def CreateBucketIfNotExists_def split: option.splits)

lemma AddBucket_unnamed:
  "AddBucket kvs [] = (Return (Some ErrBucketNameRequired), kvs\<lparr>txs := WriteTx # txs kvs\<rparr>)"
  by (simp add: AddBucket_def Update_def CreateBucketIfNotExists_def)

lemma AddBucket_bucket:
  assumes "bucket \<noteq> []"
  shows "Tx_Bucket (buckets (snd (AddBucket kvs bucket))) bucket =
           Some (case Tx_Bucket (buckets kvs) bucket of None \<Rightarrow> [] | Some b \<Rightarrow> b)"
  using assms by (simp add: AddBucket_named Tx_Bucket_node_put split: option.splits)

lemma Put_stored:
  assumes "bucket \<noteq> []" "key \<noteq> []" "length key \<le> MaxKeySize"
    and "Encode g v = Encoded buf" "length buf \<le> MaxValueSize"
  shows "\<exists>b. Tx_Bucket (buckets (snd (AddBucket kvs bucket))) bucket = Some b \<and>
           Put g kvs bucket key (Some v) =
             (Return None,
              \<lparr>buckets = node_put (buckets (snd (AddBucket kvs bucket))) bucket (node_put b key buf),
               txs = WriteTx # WriteTx # txs kvs\<rparr>)"
  using assms AddBucket_bucket [OF assms(1), of kvs]
  by (simp add: Put_def AddBucket_named Update_def Bucket_Put_def)

lemma Put_unencodable:
  assumes "bucket \<noteq> []" "Encode g v = EncodeError"
  shows "Put g kvs bucket key (Some v) = AddBucket kvs bucket"
  using assms by (simp add: Put_def AddBucket_named)

lemma Put_encoder_panics:
  assumes "bucket \<noteq> []" "Encode g v = EncodePanic"
  shows "Put g kvs bucket key (Some v) = (Panic, snd (AddBucket kvs bucket))"
  using assms by (simp add: Put_def AddBucket_named)

text \<open>
  What \<open>Put\<close> passes on from the engine, for any codec: the bucket has been made sure of
  by then, and the transaction that would have written the entry is rolled back.
\<close>

lemma Put_refused_by_engine:
  assumes "bucket \<noteq> []" "Encode g v = Encoded buf"
  shows "key = [] \<Longrightarrow>
           Put g kvs bucket key (Some v) =
             (Return (Some ErrKeyRequired),
              (snd (AddBucket kvs bucket))\<lparr>txs := WriteTx # WriteTx # txs kvs\<rparr>)"
    and "length key > MaxKeySize \<Longrightarrow>
           Put g kvs bucket key (Some v) =
             (Return (Some ErrKeyTooLarge),
              (snd (AddBucket kvs bucket))\<lparr>txs := WriteTx # WriteTx # txs kvs\<rparr>)"
    and "key \<noteq> [] \<Longrightarrow> length key \<le> MaxKeySize \<Longrightarrow> length buf > MaxValueSize \<Longrightarrow>
           Put g kvs bucket key (Some v) =
             (Return (Some ErrValueTooLarge),
              (snd (AddBucket kvs bucket))\<lparr>txs := WriteTx # WriteTx # txs kvs\<rparr>)"
  using assms AddBucket_bucket [OF assms(1), of kvs]
  by (auto simp: Put_def AddBucket_named Update_def Bucket_Put_def MaxKeySize_def)

lemma Put_unnamed_bucket:
  "Put g kvs [] key (Some v) =
     (Return (Some ErrBucketNameRequired), kvs\<lparr>txs := WriteTx # txs kvs\<rparr>)"
  by (simp add: Put_def AddBucket_unnamed)

lemma Get_found:
  assumes "Tx_Bucket (buckets kvs) bucket = Some b" "seek b key = Some (key, buf)"
  shows "Get g kvs bucket key dest =
           (Return (fst (Decode g buf dest)), snd (Decode g buf dest),
            kvs\<lparr>txs := ReadTx # txs kvs\<rparr>)"
  using assms by (simp add: Get_def View_def Cursor_Seek_def split: prod.splits)

lemma seek_absent:
  assumes "key \<notin> fst ` set b"
  shows "seek b key = None \<or> (\<exists>k v. seek b key = Some (k, v) \<and> k \<noteq> key)"
proof (cases "seek b key")
  case None
  then show ?thesis by simp
next
  case (Some e)
  obtain k v where e: "e = (k, v)" by (cases e)
  with Some have "(k, v) \<in> set b" using seek_Some_mem [of b key k v] by simp
  then have "k \<in> fst ` set b" by force
  with assms have "k \<noteq> key" by blast
  with Some e show ?thesis by simp
qed

lemma Get_absent:
  assumes "Tx_Bucket (buckets kvs) bucket = Some b" "key \<notin> fst ` set b"
  shows "Get g kvs bucket key dest =
           (Return (Some ErrNotFound), dest, kvs\<lparr>txs := ReadTx # txs kvs\<rparr>)"
  using assms(1) seek_absent [OF assms(2)]
  by (auto simp: Get_def View_def Cursor_Seek_def)

lemma Get_no_bucket:
  assumes "Tx_Bucket (buckets kvs) bucket = None"
  shows "Get g kvs bucket key dest = (Panic, dest, kvs\<lparr>txs := ReadTx # txs kvs\<rparr>)"
  using assms by (simp add: Get_def View_def)

lemma Delete_absent:
  assumes "Tx_Bucket (buckets kvs) bucket = Some b" "key \<notin> fst ` set b"
  shows "Delete kvs bucket key = (Return (Some ErrNotFound), kvs\<lparr>txs := WriteTx # txs kvs\<rparr>)"
  using assms(1) seek_absent [OF assms(2)]
  by (auto simp: Delete_def Update_def Cursor_Seek_def)

lemma Delete_no_bucket:
  assumes "Tx_Bucket (buckets kvs) bucket = None"
  shows "Delete kvs bucket key = (Panic, kvs\<lparr>txs := WriteTx # txs kvs\<rparr>)"
  using assms by (simp add: Delete_def Update_def)

lemma Delete_found:
  assumes "Tx_Bucket (buckets kvs) bucket = Some b" "seek b key = Some (key, buf)"
  shows "Delete kvs bucket key =
           (Return None,
            \<lparr>buckets = node_put (buckets kvs) bucket (node_del b key),
             txs = WriteTx # txs kvs\<rparr>)"
  using assms by (simp add: Delete_def Update_def Cursor_Seek_def Cursor_Delete_def)

lemma AddBucket_buckets_cases:
  "buckets (snd (AddBucket kvs bucket)) = buckets kvs \<or>
   buckets (snd (AddBucket kvs bucket)) = node_put (buckets kvs) bucket []"
  by (cases "bucket = []") (auto simp: AddBucket_named AddBucket_unnamed split: option.splits)

lemma Put_valid_buckets:
  assumes "bucket \<noteq> []" "key \<noteq> []" "length key \<le> MaxKeySize"
    and "Encode g v = Encoded buf" "length buf \<le> MaxValueSize"
  shows "buckets (snd (Put g kvs bucket key (Some v))) =
           node_put (buckets kvs) bucket
             (node_put (case Tx_Bucket (buckets kvs) bucket of None \<Rightarrow> [] | Some b \<Rightarrow> b) key buf)"
proof -
  from Put_stored [OF assms, of kvs] obtain b where
    b: "Tx_Bucket (buckets (snd (AddBucket kvs bucket))) bucket = Some b" and
    put: "buckets (snd (Put g kvs bucket key (Some v))) =
            node_put (buckets (snd (AddBucket kvs bucket))) bucket (node_put b key buf)"
    by force
  from b have b0: "b = (case Tx_Bucket (buckets kvs) bucket of None \<Rightarrow> [] | Some b \<Rightarrow> b)"
    by (simp add: AddBucket_bucket [OF assms(1)])
  show ?thesis
  proof (cases "Tx_Bucket (buckets kvs) bucket")
    case None
    with assms(1) have "buckets (snd (AddBucket kvs bucket)) = node_put (buckets kvs) bucket []"
      by (simp add: AddBucket_named)
    with put b0 show ?thesis by (simp add: node_put_node_put)
  next
    case (Some b')
    with assms(1) have "buckets (snd (AddBucket kvs bucket)) = buckets kvs"
      by (simp add: AddBucket_named)
    with put b0 show ?thesis by simp
  qed
qed

lemma Put_buckets_cases:
  "buckets (snd (Put g kvs bucket key value)) = buckets kvs \<or>
   buckets (snd (Put g kvs bucket key value)) = buckets (snd (AddBucket kvs bucket)) \<or>
   (\<exists>v buf. value = Some v \<and> Encode g v = Encoded buf \<and>
      buckets (snd (Put g kvs bucket key value)) =
        node_put (buckets kvs) bucket
          (node_put (case Tx_Bucket (buckets kvs) bucket of None \<Rightarrow> [] | Some b \<Rightarrow> b) key buf))"
proof (cases "value")
  case None
  then show ?thesis by (simp add: Put_def)
next
  case (Some v)
  show ?thesis
  proof (cases "bucket = []")
    case True
    with Some show ?thesis by (simp add: Put_def AddBucket_unnamed)
  next
    case named: False
    show ?thesis
    proof (cases "Encode g v")
      case EncodeError
      with Some named show ?thesis by (simp add: Put_unencodable)
    next
      case EncodePanic
      with Some named show ?thesis by (simp add: Put_encoder_panics)
    next
      case (Encoded buf)
      show ?thesis
      proof (cases "key \<noteq> [] \<and> length key \<le> MaxKeySize \<and> length buf \<le> MaxValueSize")
        case True
        with named Encoded Put_valid_buckets [of bucket key g v buf kvs] \<open>value = Some v\<close>
        show ?thesis by simp
      next
        case False
        from AddBucket_bucket [OF named, of kvs] obtain b where
          "Tx_Bucket (buckets (snd (AddBucket kvs bucket))) bucket = Some b" by blast
        with False named Encoded \<open>value = Some v\<close>
        have "buckets (snd (Put g kvs bucket key value)) = buckets (snd (AddBucket kvs bucket))"
          by (auto simp: Put_def AddBucket_named Update_def Bucket_Put_def)
        then show ?thesis by simp
      qed
    qed
  qed
qed

lemma Get_buckets: "buckets (snd (snd (Get g kvs bucket key dest))) = buckets kvs"
  by (simp add: Get_def View_def split: outcome.splits prod.splits)

lemma Delete_buckets_cases:
  "buckets (snd (Delete kvs bucket key)) = buckets kvs \<or>
   (\<exists>b. Tx_Bucket (buckets kvs) bucket = Some b \<and>
      buckets (snd (Delete kvs bucket key)) = node_put (buckets kvs) bucket (node_del b key))"
  by (auto simp: Delete_def Update_def Cursor_Seek_def Cursor_Delete_def
      split: option.splits prod.splits)

lemma Put_then_Get:
  assumes "bucket \<noteq> []" "key \<noteq> []" "length key \<le> MaxKeySize"
    and "Encode g v = Encoded buf" "length buf \<le> MaxValueSize"
  shows "fst (Put g kvs bucket key (Some v)) = Return None \<and>
         fst (Get g (snd (Put g kvs bucket key (Some v))) bucket key dest) =
           Return (fst (Decode g buf dest)) \<and>
         fst (snd (Get g (snd (Put g kvs bucket key (Some v))) bucket key dest)) =
           snd (Decode g buf dest)"
proof -
  from Put_stored [OF assms, of kvs] obtain b where
    put: "Put g kvs bucket key (Some v) =
            (Return None,
             \<lparr>buckets = node_put (buckets (snd (AddBucket kvs bucket))) bucket (node_put b key buf),
              txs = WriteTx # WriteTx # txs kvs\<rparr>)"
    by blast
  let ?kvs' = "snd (Put g kvs bucket key (Some v))"
  have "Tx_Bucket (buckets ?kvs') bucket = Some (node_put b key buf)"
    by (simp add: put Tx_Bucket_node_put)
  moreover have "seek (node_put b key buf) key = Some (key, buf)"
    by (rule seek_node_put_same)
  ultimately have "Get g ?kvs' bucket key dest =
      (Return (fst (Decode g buf dest)), snd (Decode g buf dest),
       ?kvs'\<lparr>txs := ReadTx # txs ?kvs'\<rparr>)"
    by (rule Get_found)
  then show ?thesis by (simp add: put)
qed

text \<open>
  \<open>Put\<close> panics exactly when the encoder does: the bucket it writes to has been made sure of
  by then, so the nil bucket is never met.
\<close>

lemma Put_panics_iff:
  "fst (Put g kvs bucket key value) = Panic \<longleftrightarrow>
     (\<exists>v. value = Some v \<and> bucket \<noteq> [] \<and> Encode g v = EncodePanic)"
proof (cases "value")
  case None
  then show ?thesis by (simp add: Put_def)
next
  case (Some v)
  show ?thesis
  proof (cases "bucket = []")
    case True
    with Some show ?thesis by (simp add: Put_def AddBucket_unnamed)
  next
    case named: False
    from AddBucket_bucket [OF named, of kvs] obtain b where
      b: "Tx_Bucket (buckets (snd (AddBucket kvs bucket))) bucket = Some b" by blast
    show ?thesis
    proof (cases "Encode g v")
      case (Encoded buf)
      with Some named b show ?thesis
        by (auto simp: Put_def AddBucket_named Update_def split: sum.splits)
    next
      case EncodeError
      with Some named show ?thesis by (simp add: Put_unencodable AddBucket_named)
    next
      case EncodePanic
      with Some named show ?thesis by (simp add: Put_encoder_panics)
    qed
  qed
qed

lemma Get_same_buckets:
  assumes "buckets kvs' = buckets kvs"
  shows "fst (Get g kvs' bucket key dest) = fst (Get g kvs bucket key dest) \<and>
         fst (snd (Get g kvs' bucket key dest)) = fst (snd (Get g kvs bucket key dest))"
  using assms by (simp add: Get_def View_def split: outcome.splits prod.splits)

lemma Put_nil_keeps_NotFound:
  assumes "Tx_Bucket (buckets kvs) bucket = Some b" "key \<notin> fst ` set b"
  shows "fst (Get g (snd (Put g kvs bucket key None)) bucket key dest) =
           Return (Some ErrNotFound)"
  using Get_absent [OF assms, of g dest] by (simp add: Put_def)

subsection \<open>What holds of every store the calls build\<close>

lemma wf_db_buckets: "buckets kvs' = buckets kvs \<Longrightarrow> wf_db kvs \<Longrightarrow> wf_db kvs'"
  by (simp add: wf_db_def)

lemma wf_db_node_put:
  assumes "wf_db kvs" "wf_node b" "buckets kvs' = node_put (buckets kvs) name b"
  shows "wf_db kvs'"
proof -
  from assms(1) have root: "wf_node (buckets kvs)" and each: "\<forall>e \<in> set (buckets kvs). wf_node (snd e)"
    by (simp_all add: wf_db_def)
  have "wf_node (node_put (buckets kvs) name b)" using root by (rule wf_node_put)
  moreover have "\<forall>e \<in> set (node_put (buckets kvs) name b). wf_node (snd e)"
    using each assms(2) set_node_put [of "buckets kvs" name b] by auto
  ultimately show ?thesis by (simp add: wf_db_def assms(3))
qed

lemma wf_db_bucket:
  assumes "wf_db kvs" "Tx_Bucket (buckets kvs) name = Some b"
  shows "wf_node b"
proof -
  from assms(2) have "(name, b) \<in> set (buckets kvs)" by (rule Tx_Bucket_mem)
  with assms(1) have "wf_node (snd (name, b))" unfolding wf_db_def by blast
  then show ?thesis by simp
qed

lemma wf_db_bucket_or_empty:
  "wf_db kvs \<Longrightarrow> wf_node (case Tx_Bucket (buckets kvs) name of None \<Rightarrow> [] | Some b \<Rightarrow> b)"
  by (auto simp: wf_node_def [of "[]"] split: option.splits dest: wf_db_bucket)

lemma wf_db_NewKVStore: "wf_db NewKVStore"
  by (simp add: wf_db_def wf_node_def NewKVStore_def)

lemma wf_db_AddBucket: "wf_db kvs \<Longrightarrow> wf_db (snd (AddBucket kvs bucket))"
  using AddBucket_buckets_cases [of kvs bucket]
  by (auto intro: wf_db_buckets wf_db_node_put [where b = "[]"] simp: wf_node_def)

lemma wf_db_Put:
  assumes "wf_db kvs"
  shows "wf_db (snd (Put g kvs bucket key value))"
proof -
  let ?kvs' = "snd (Put g kvs bucket key value)"
  let ?b0 = "case Tx_Bucket (buckets kvs) bucket of None \<Rightarrow> [] | Some b \<Rightarrow> b"
  from Put_buckets_cases [of g kvs bucket key "value"]
  consider "buckets ?kvs' = buckets kvs"
    | "buckets ?kvs' = buckets (snd (AddBucket kvs bucket))"
    | buf where "buckets ?kvs' = node_put (buckets kvs) bucket (node_put ?b0 key buf)"
    by blast
  then show ?thesis
  proof cases
    case 1
    from 1 assms show ?thesis by (rule wf_db_buckets)
  next
    case 2
    from 2 wf_db_AddBucket [OF assms] show ?thesis by (rule wf_db_buckets)
  next
    case 3
    from wf_db_bucket_or_empty [OF assms] have "wf_node (node_put ?b0 key buf)"
      by (rule wf_node_put)
    with assms show ?thesis using 3 by (rule wf_db_node_put)
  qed
qed

lemma wf_db_Get: "wf_db kvs \<Longrightarrow> wf_db (snd (snd (Get g kvs bucket key dest)))"
  using Get_buckets by (rule wf_db_buckets)

lemma wf_db_Delete: "wf_db kvs \<Longrightarrow> wf_db (snd (Delete kvs bucket key))"
  using Delete_buckets_cases [of kvs bucket key]
  by (auto intro: wf_db_buckets wf_db_node_put [OF _ wf_node_del [OF wf_db_bucket]])

lemma reachable_wf_db: "reachable g kvs \<Longrightarrow> wf_db kvs"
proof (induction rule: reachable.induct)
  case fresh
  show ?case by (rule wf_db_NewKVStore)
next
  case (by_AddBucket kvs bucket err kvs')
  with wf_db_AddBucket [of kvs bucket] show ?case by simp
next
  case (by_Put kvs bucket key "value" err kvs')
  with wf_db_Put [of kvs g bucket key "value"] show ?case by simp
next
  case (by_Get kvs bucket key dest err dest' kvs')
  with wf_db_Get [of kvs g bucket key dest] show ?case by simp
next
  case (by_Delete kvs bucket key err kvs')
  with wf_db_Delete [of kvs bucket key] show ?case by simp
qed

lemma all_node_put:
  assumes "\<forall>e \<in> set xs. P e" "P (k, v)"
  shows "\<forall>e \<in> set (node_put xs k v). P e"
  using assms set_node_put [of xs k v] by blast

lemma gob_clean_buckets: "buckets kvs' = buckets kvs \<Longrightarrow> gob_clean g kvs \<Longrightarrow> gob_clean g kvs'"
  by (simp add: gob_clean_def)

lemma gob_clean_node_put:
  assumes "gob_clean g kvs" "\<forall>kv \<in> set b. Decode g (snd kv) None = (None, None)"
    and "buckets kvs' = node_put (buckets kvs) name b"
  shows "gob_clean g kvs'"
  unfolding gob_clean_def
proof
  fix e assume "e \<in> set (buckets kvs')"
  with assms(3) set_node_put [of "buckets kvs" name b]
  have "e = (name, b) \<or> e \<in> set (buckets kvs)" by auto
  with assms(1,2) show "\<forall>kv \<in> set (snd e). Decode g (snd kv) None = (None, None)"
    unfolding gob_clean_def by auto
qed

lemma gob_clean_bucket:
  assumes "gob_clean g kvs" "Tx_Bucket (buckets kvs) name = Some b"
  shows "\<forall>kv \<in> set b. Decode g (snd kv) None = (None, None)"
proof -
  from assms(2) have "(name, b) \<in> set (buckets kvs)" by (rule Tx_Bucket_mem)
  with assms(1) have "\<forall>kv \<in> set (snd (name, b)). Decode g (snd kv) None = (None, None)"
    unfolding gob_clean_def by blast
  then show ?thesis by simp
qed

lemma gob_clean_bucket_or_empty:
  assumes "gob_clean g kvs"
  shows "\<forall>kv \<in> set (case Tx_Bucket (buckets kvs) name of None \<Rightarrow> [] | Some b \<Rightarrow> b).
           Decode g (snd kv) None = (None, None)"
  using gob_clean_bucket [OF assms, of name] by (cases "Tx_Bucket (buckets kvs) name") auto

lemma gob_clean_NewKVStore: "gob_clean g NewKVStore"
  by (simp add: gob_clean_def NewKVStore_def)

lemma gob_clean_AddBucket: "gob_clean g kvs \<Longrightarrow> gob_clean g (snd (AddBucket kvs bucket))"
  using AddBucket_buckets_cases [of kvs bucket]
  by (auto intro: gob_clean_buckets gob_clean_node_put [where b = "[]"])

lemma gob_clean_Put:
  assumes "discards_on_nil g" "gob_clean g kvs"
  shows "gob_clean g (snd (Put g kvs bucket key value))"
proof -
  let ?kvs' = "snd (Put g kvs bucket key value)"
  let ?b0 = "case Tx_Bucket (buckets kvs) bucket of None \<Rightarrow> [] | Some b \<Rightarrow> b"
  from Put_buckets_cases [of g kvs bucket key "value"]
  consider "buckets ?kvs' = buckets kvs"
    | "buckets ?kvs' = buckets (snd (AddBucket kvs bucket))"
    | v buf where "Encode g v = Encoded buf"
        "buckets ?kvs' = node_put (buckets kvs) bucket (node_put ?b0 key buf)"
    by blast
  then show ?thesis
  proof cases
    case 1
    from 1 assms(2) show ?thesis by (rule gob_clean_buckets)
  next
    case 2
    from 2 gob_clean_AddBucket [OF assms(2)] show ?thesis by (rule gob_clean_buckets)
  next
    case 3
    from assms(1) 3(1) have "Decode g buf None = (None, None)"
      unfolding discards_on_nil_def by blast
    then have "Decode g (snd (key, buf)) None = (None, None)" by simp
    with gob_clean_bucket_or_empty [OF assms(2), of bucket]
    have "\<forall>kv \<in> set (node_put ?b0 key buf). Decode g (snd kv) None = (None, None)"
      by (rule all_node_put)
    with assms(2) show ?thesis using 3(2) by (rule gob_clean_node_put)
  qed
qed

lemma gob_clean_Get: "gob_clean g kvs \<Longrightarrow> gob_clean g (snd (snd (Get g kvs bucket key dest)))"
  using Get_buckets by (rule gob_clean_buckets)

lemma gob_clean_Delete:
  assumes "gob_clean g kvs"
  shows "gob_clean g (snd (Delete kvs bucket key))"
proof -
  from Delete_buckets_cases [of kvs bucket key]
  consider "buckets (snd (Delete kvs bucket key)) = buckets kvs"
    | b where "Tx_Bucket (buckets kvs) bucket = Some b"
        "buckets (snd (Delete kvs bucket key)) = node_put (buckets kvs) bucket (node_del b key)"
    by blast
  then show ?thesis
  proof cases
    case 1
    from 1 assms show ?thesis by (rule gob_clean_buckets)
  next
    case 2
    from gob_clean_bucket [OF assms 2(1)] set_node_del [of b key]
    have "\<forall>kv \<in> set (node_del b key). Decode g (snd kv) None = (None, None)" by auto
    with assms show ?thesis using 2(2) by (rule gob_clean_node_put)
  qed
qed

lemma reachable_gob_clean:
  assumes "discards_on_nil g" "reachable g kvs"
  shows "gob_clean g kvs"
  using assms(2)
proof (induction rule: reachable.induct)
  case fresh
  show ?case by (rule gob_clean_NewKVStore)
next
  case (by_AddBucket kvs bucket err kvs')
  with gob_clean_AddBucket [of g kvs bucket] show ?case by simp
next
  case (by_Put kvs bucket key "value" err kvs')
  with gob_clean_Put [OF assms(1), of kvs bucket key "value"] show ?case by simp
next
  case (by_Get kvs bucket key dest err dest' kvs')
  with gob_clean_Get [of g kvs bucket key dest] show ?case by simp
next
  case (by_Delete kvs bucket key err kvs')
  with gob_clean_Delete [of g kvs bucket key] show ?case by simp
qed

lemma has_key_seek:
  assumes "wf_db kvs" "has_key kvs bucket key"
  shows "\<exists>b buf. Tx_Bucket (buckets kvs) bucket = Some b \<and> seek b key = Some (key, buf)"
proof -
  from assms(2) obtain b where b: "Tx_Bucket (buckets kvs) bucket = Some b" and "key \<in> fst ` set b"
    by (auto simp: has_key_def split: option.splits)
  then obtain buf where "(key, buf) \<in> set b" by force
  with wf_db_bucket [OF assms(1) b] have "seek b key = Some (key, buf)" by (rule seek_present)
  with b show ?thesis by blast
qed

subsection \<open>The store run on concrete values\<close>

lemmas run_defs = Put_def Get_def Delete_def View_def Cursor_Seek_def Cursor_Delete_def AddBucket_def Update_def
  CreateBucketIfNotExists_def Tx_Bucket_def NewKVStore_def demo_gob_def Bucket_Put_def
  MaxKeySize_def MaxValueSize_def

lemma demo_discards_on_nil: "discards_on_nil demo_gob"
  unfolding discards_on_nil_def
proof (intro allI impI)
  fix v bs assume "Encode demo_gob v = Encoded bs"
  then show "Decode demo_gob bs None = (None, None)"
    by (cases v) (auto simp: demo_gob_def)
qed

lemma demo_Put:
  "Put demo_gob NewKVStore ''p'' ''x'' (Some (DStr ''42'')) =
     (Return None, \<lparr>buckets = [(''p'', [(''x'', ''s42'')])], txs = [WriteTx, WriteTx]\<rparr>)"
  by (simp add: run_defs)

lemma demo_reachable:
  "reachable demo_gob \<lparr>buckets = [(''p'', [(''x'', ''s42'')])], txs = [WriteTx, WriteTx]\<rparr>"
  using reachable.by_Put [OF reachable.fresh demo_Put] .

subsection \<open>A nil value is refused before anything else\<close>

text \<open>
  C3 fails on the code in its last clause. For every store, bucket and key, \<open>Put\<close> of the
  nil value returns \<open>ErrBadValue\<close> and hands the database back as it was: no bucket changed
  and no transaction begun, so nothing was read or written. But on a freshly opened
  store, where the key is absent, the \<open>Get\<close> that follows panics instead of returning
  \<open>ErrNotFound\<close>: the bucket does not exist and \<open>Get\<close> takes the cursor of the nil bucket.
  Where the bucket exists and the key is not in it, the \<open>Get\<close> that follows does return
  \<open>ErrNotFound\<close> (\<open>Put_nil_keeps_NotFound\<close>).
\<close>

theorem Put_nil_then_Get_without_bucket:
  "Put g kvs bucket key None = (Return (Some ErrBadValue), kvs) \<and>
   snd (Put g NewKVStore bucket key None) = NewKVStore \<and>
   \<not> has_key NewKVStore bucket key \<and>
   fst (Get g (snd (Put g NewKVStore bucket key None)) bucket key dest) = Panic"
  by (simp add: Put_def Get_def View_def Tx_Bucket_def NewKVStore_def has_key_def)

subsection \<open>Presence test with a nil destination\<close>

text \<open>
  C5. For every store the API has built, every bucket and every key present in it, \<open>Get\<close>
  with a nil destination returns a nil error, the destination stays nil and no bucket
  changes; the call begins one read transaction. The source reaches the decoder on this
  path (its test before decoding is on the stored bytes, which are never nil for an
  entry), and the decoder, given nil, reads the value and discards it: that is the
  hypothesis \<open>discards_on_nil\<close> on the codec.
\<close>

theorem Get_nil_destination:
  assumes "discards_on_nil g" "reachable g kvs" "has_key kvs bucket key"
  shows "Get g kvs bucket key None = (Return None, None, kvs\<lparr>txs := ReadTx # txs kvs\<rparr>)"
proof -
  from assms(2) have wf: "wf_db kvs" by (rule reachable_wf_db)
  from assms(1,2) have clean: "gob_clean g kvs" by (rule reachable_gob_clean)
  from has_key_seek [OF wf assms(3)] obtain b buf where
    b: "Tx_Bucket (buckets kvs) bucket = Some b" and s: "seek b key = Some (key, buf)" by blast
  from s have "(key, buf) \<in> set b" using seek_Some_mem [of b key key buf] by simp
  with gob_clean_bucket [OF clean b] have "Decode g buf None = (None, None)" by force
  with Get_found [OF b s, of g None] show ?thesis by simp
qed

text \<open>The theorem at the store that one \<open>Put\<close> builds.\<close>

theorem Get_nil_destination_witness:
  "discards_on_nil demo_gob \<and>
   reachable demo_gob \<lparr>buckets = [(''p'', [(''x'', ''s42'')])], txs = [WriteTx, WriteTx]\<rparr> \<and>
   has_key \<lparr>buckets = [(''p'', [(''x'', ''s42'')])], txs = [WriteTx, WriteTx]\<rparr> ''p'' ''x'' \<and>
   Get demo_gob \<lparr>buckets = [(''p'', [(''x'', ''s42'')])], txs = [WriteTx, WriteTx]\<rparr> ''p'' ''x'' None =
     (Return None, None,
      \<lparr>buckets = [(''p'', [(''x'', ''s42'')])], txs = [ReadTx, WriteTx, WriteTx]\<rparr>)"
proof -
  have k: "has_key \<lparr>buckets = [(''p'', [(''x'', ''s42'')])], txs = [WriteTx, WriteTx]\<rparr> ''p'' ''x''"
    by (simp add: has_key_def Tx_Bucket_def)
  from Get_nil_destination [OF demo_discards_on_nil demo_reachable k]
    demo_discards_on_nil demo_reachable k
  show ?thesis by simp
qed

subsection \<open>Deleting twice\<close>

text \<open>
  C7. For every store the API has built, every bucket and every key present in it,
  \<open>Delete\<close> returns a nil error and the key is gone: it is no longer present, a second
  \<open>Delete\<close> of it returns \<open>ErrNotFound\<close>, and so does a \<open>Get\<close>.
\<close>

theorem Delete_twice:
  assumes "reachable g kvs" "has_key kvs bucket key"
  shows "fst (Delete kvs bucket key) = Return None \<and>
         \<not> has_key (snd (Delete kvs bucket key)) bucket key \<and>
         fst (Delete (snd (Delete kvs bucket key)) bucket key) = Return (Some ErrNotFound) \<and>
         fst (Get g (snd (Delete kvs bucket key)) bucket key dest) = Return (Some ErrNotFound)"
proof -
  from assms(1) have wf: "wf_db kvs" by (rule reachable_wf_db)
  from has_key_seek [OF wf assms(2)] obtain b buf where
    b: "Tx_Bucket (buckets kvs) bucket = Some b" and s: "seek b key = Some (key, buf)" by blast
  let ?kvs' = "snd (Delete kvs bucket key)"
  from Delete_found [OF b s] have del: "Delete kvs bucket key =
      (Return None, \<lparr>buckets = node_put (buckets kvs) bucket (node_del b key),
                     txs = WriteTx # txs kvs\<rparr>)" .
  then have b': "Tx_Bucket (buckets ?kvs') bucket = Some (node_del b key)"
    by (simp add: Tx_Bucket_node_put)
  have gone: "key \<notin> fst ` set (node_del b key)"
    using keys_node_del [OF wf_db_bucket [OF wf b], of key] by simp
  from b' gone have "\<not> has_key ?kvs' bucket key" by (simp add: has_key_def)
  moreover from Delete_absent [OF b' gone]
  have "fst (Delete ?kvs' bucket key) = Return (Some ErrNotFound)" by simp
  moreover from Get_absent [OF b' gone, of g dest]
  have "fst (Get g ?kvs' bucket key dest) = Return (Some ErrNotFound)" by simp
  ultimately show ?thesis using del by simp
qed

text \<open>The theorem at the store that one \<open>Put\<close> builds, with both results in full.\<close>

theorem Delete_twice_witness:
  "reachable demo_gob \<lparr>buckets = [(''p'', [(''x'', ''s42'')])], txs = [WriteTx, WriteTx]\<rparr> \<and>
   has_key \<lparr>buckets = [(''p'', [(''x'', ''s42'')])], txs = [WriteTx, WriteTx]\<rparr> ''p'' ''x'' \<and>
   Delete \<lparr>buckets = [(''p'', [(''x'', ''s42'')])], txs = [WriteTx, WriteTx]\<rparr> ''p'' ''x'' =
     (Return None, \<lparr>buckets = [(''p'', [])], txs = [WriteTx, WriteTx, WriteTx]\<rparr>) \<and>
   Delete \<lparr>buckets = [(''p'', [])], txs = [WriteTx, WriteTx, WriteTx]\<rparr> ''p'' ''x'' =
     (Return (Some ErrNotFound),
      \<lparr>buckets = [(''p'', [])], txs = [WriteTx, WriteTx, WriteTx, WriteTx]\<rparr>)"
proof -
  have k: "has_key \<lparr>buckets = [(''p'', [(''x'', ''s42'')])], txs = [WriteTx, WriteTx]\<rparr> ''p'' ''x''"
    by (simp add: has_key_def Tx_Bucket_def)
  have d1: "Delete \<lparr>buckets = [(''p'', [(''x'', ''s42'')])], txs = [WriteTx, WriteTx]\<rparr> ''p'' ''x'' =
     (Return None, \<lparr>buckets = [(''p'', [])], txs = [WriteTx, WriteTx, WriteTx]\<rparr>)"
    by (simp add: run_defs)
  have d2: "snd (Delete \<lparr>buckets = [(''p'', [])], txs = [WriteTx, WriteTx, WriteTx]\<rparr> ''p'' ''x'') =
      \<lparr>buckets = [(''p'', [])], txs = [WriteTx, WriteTx, WriteTx, WriteTx]\<rparr>"
    by (simp add: run_defs)
  from Delete_twice [OF demo_reachable k, of "Some (DStr [])"] demo_reachable k d1 d2
  show ?thesis by (simp add: prod_eq_iff)
qed

subsection \<open>Put, then Get\<close>

text \<open>
  C1, as the code has it. For every bucket name that is not empty, every key of at least
  one and at most \<open>MaxKeySize\<close> bytes and every value \<open>v\<close> that the encoder writes in at
  most \<open>MaxValueSize\<close> bytes and the decoder reads back into the destination as \<open>v\<close>:
  \<open>Put\<close> returns a nil error, and the \<open>Get\<close> that follows returns a nil error and leaves
  \<open>v\<close> in the destination. This holds from any store whatever.
\<close>

theorem Put_then_Get_roundtrip:
  assumes "bucket \<noteq> []" "key \<noteq> []" "length key \<le> MaxKeySize"
    and "Encode g v = Encoded buf" "length buf \<le> MaxValueSize"
    and "Decode g buf (Some d) = (None, Some v)"
  shows "fst (Put g kvs bucket key (Some v)) = Return None \<and>
         fst (Get g (snd (Put g kvs bucket key (Some v))) bucket key (Some d)) = Return None \<and>
         fst (snd (Get g (snd (Put g kvs bucket key (Some v))) bucket key (Some d))) = Some v"
  using Put_then_Get [OF assms(1-5), of kvs "Some d"] assms(6) by simp

text \<open>The theorem at a freshly opened store.\<close>

theorem Put_then_Get_roundtrip_witness:
  "''p'' \<noteq> [] \<and> ''x'' \<noteq> [] \<and> length ''x'' \<le> MaxKeySize \<and>
   Encode demo_gob (DStr ''42'') = Encoded ''s42'' \<and> length ''s42'' \<le> MaxValueSize \<and>
   Decode demo_gob ''s42'' (Some (DStr [])) = (None, Some (DStr ''42'')) \<and>
   fst (Put demo_gob NewKVStore ''p'' ''x'' (Some (DStr ''42''))) = Return None \<and>
   fst (Get demo_gob (snd (Put demo_gob NewKVStore ''p'' ''x'' (Some (DStr ''42''))))
          ''p'' ''x'' (Some (DStr []))) = Return None \<and>
   fst (snd (Get demo_gob (snd (Put demo_gob NewKVStore ''p'' ''x'' (Some (DStr ''42''))))
          ''p'' ''x'' (Some (DStr [])))) = Some (DStr ''42'')"
proof -
  have h: "''p'' \<noteq> []" "''x'' \<noteq> []" "length ''x'' \<le> MaxKeySize"
    "Encode demo_gob (DStr ''42'') = Encoded ''s42''" "length ''s42'' \<le> MaxValueSize"
    "Decode demo_gob ''s42'' (Some (DStr [])) = (None, Some (DStr ''42''))"
    by (simp_all add: MaxKeySize_def MaxValueSize_def demo_gob_def)
  from Put_then_Get_roundtrip [OF h, of NewKVStore] h show ?thesis by simp
qed

text \<open>
  C1 as stated, for every bucket, every key and every encodable value, fails. From a
  freshly opened store and with a value that encodes and decodes back: under the empty
  key \<open>Put\<close> returns \<open>ErrKeyRequired\<close> and the \<open>Get\<close> that follows \<open>ErrNotFound\<close>, the
  destination untouched; under the empty bucket name \<open>Put\<close> returns
  \<open>ErrBucketNameRequired\<close> and the \<open>Get\<close> panics; under a key of 32769 bytes \<open>Put\<close>
  returns \<open>ErrKeyTooLarge\<close>; with a value of more than \<open>MaxValueSize\<close> encoded bytes
  \<open>Put\<close> returns \<open>ErrValueTooLarge\<close>; and in each case the \<open>Get\<close> finds nothing. The codec
  plays no part in these refusals (\<open>Put_refused_by_engine\<close>, \<open>Put_unnamed_bucket\<close>).
\<close>

theorem Put_then_Get_counterexample:
  "Encode demo_gob (DStr ''v'') = Encoded ''sv'' \<and>
   Decode demo_gob ''sv'' (Some (DStr [])) = (None, Some (DStr ''v'')) \<and>
   Put demo_gob NewKVStore ''p'' [] (Some (DStr ''v'')) =
     (Return (Some ErrKeyRequired), \<lparr>buckets = [(''p'', [])], txs = [WriteTx, WriteTx]\<rparr>) \<and>
   Get demo_gob \<lparr>buckets = [(''p'', [])], txs = [WriteTx, WriteTx]\<rparr> ''p'' [] (Some (DStr [])) =
     (Return (Some ErrNotFound), Some (DStr []),
      \<lparr>buckets = [(''p'', [])], txs = [ReadTx, WriteTx, WriteTx]\<rparr>) \<and>
   Put demo_gob NewKVStore [] ''k'' (Some (DStr ''v'')) =
     (Return (Some ErrBucketNameRequired), \<lparr>buckets = [], txs = [WriteTx]\<rparr>) \<and>
   fst (Get demo_gob \<lparr>buckets = [], txs = [WriteTx]\<rparr> [] ''k'' (Some (DStr []))) = Panic \<and>
   Put demo_gob NewKVStore ''p'' (replicate 32769 CHR ''k'') (Some (DStr ''v'')) =
     (Return (Some ErrKeyTooLarge), \<lparr>buckets = [(''p'', [])], txs = [WriteTx, WriteTx]\<rparr>) \<and>
   fst (Get demo_gob \<lparr>buckets = [(''p'', [])], txs = [WriteTx, WriteTx]\<rparr> ''p''
          (replicate 32769 CHR ''k'') (Some (DStr []))) = Return (Some ErrNotFound) \<and>
   Put demo_gob NewKVStore ''p'' ''k'' (Some (DStr (replicate (2 ^ 31) CHR ''v''))) =
     (Return (Some ErrValueTooLarge), \<lparr>buckets = [(''p'', [])], txs = [WriteTx, WriteTx]\<rparr>) \<and>
   fst (Get demo_gob \<lparr>buckets = [(''p'', [])], txs = [WriteTx, WriteTx]\<rparr> ''p'' ''k''
          (Some (DStr []))) = Return (Some ErrNotFound)"
  by (simp add: run_defs)

subsection \<open>A bucket that was never created\<close>

text \<open>
  C2 fails on the code where the bucket does not exist. On a freshly opened store, for
  every bucket and key, \<open>Get\<close> and \<open>Delete\<close> panic: \<open>tx.Bucket\<close> returns nil and the
  source takes the cursor of that nil bucket. The same happens after a \<open>Put\<close> into bucket
  \<open>a\<close> when the same key is asked for in bucket \<open>b\<close>, which no call created. Any store
  without the bucket behaves so (\<open>Get_no_bucket\<close>, \<open>Delete_no_bucket\<close>). Where the bucket
  exists and the key is not in it, both calls return \<open>ErrNotFound\<close> (\<open>Get_absent\<close>,
  \<open>Delete_absent\<close>).
\<close>

theorem Get_without_bucket_panics:
  "Get g NewKVStore bucket key dest = (Panic, dest, \<lparr>buckets = [], txs = [ReadTx]\<rparr>) \<and>
   Delete NewKVStore bucket key = (Panic, \<lparr>buckets = [], txs = [WriteTx]\<rparr>) \<and>
   fst (Get g (snd (Put g NewKVStore ''a'' key (Some v))) ''b'' key dest) = Panic \<and>
   fst (Delete (snd (Put g NewKVStore ''a'' key (Some v))) ''b'' key) = Panic"
proof -
  let ?kvs = "snd (Put g NewKVStore ''a'' key (Some v))"
  have "Tx_Bucket (buckets ?kvs) ''b'' = None"
    using Put_buckets_cases [of g NewKVStore "''a''" key "Some v"]
    by (auto simp: NewKVStore_def AddBucket_named Tx_Bucket_def)
  then have "fst (Get g ?kvs ''b'' key dest) = Panic" "fst (Delete ?kvs ''b'' key) = Panic"
    by (simp_all add: Get_no_bucket Delete_no_bucket)
  moreover have "Get g NewKVStore bucket key dest = (Panic, dest, \<lparr>buckets = [], txs = [ReadTx]\<rparr>)"
    by (simp add: Get_def View_def Tx_Bucket_def NewKVStore_def)
  moreover have "Delete NewKVStore bucket key = (Panic, \<lparr>buckets = [], txs = [WriteTx]\<rparr>)"
    by (simp add: Delete_def Update_def Tx_Bucket_def NewKVStore_def)
  ultimately show ?thesis by simp
qed

subsection \<open>A value the encoder refuses\<close>

text \<open>
  C4, as the code has it. For every bucket name that is not empty and every non-nil value
  on which the encoder returns an error, \<open>Put\<close> returns a nil error after one write
  transaction, the one of \<open>AddBucket\<close>: the bucket exists afterwards, created empty when it
  was missing, and no entry is written. A \<open>Get\<close> of the key after it returns \<open>ErrNotFound\<close>
  when the key was not present before; when it was present, no bucket has changed and
  the \<open>Get\<close> returns the error and the value it returned before the call.
\<close>

theorem Put_unencodable_only_adds_bucket:
  assumes "Encode g v = EncodeError" "bucket \<noteq> []"
  shows "Put g kvs bucket key (Some v) =
           (Return None,
            \<lparr>buckets = (case Tx_Bucket (buckets kvs) bucket of
                          Some b \<Rightarrow> buckets kvs
                        | None \<Rightarrow> node_put (buckets kvs) bucket []),
             txs = WriteTx # txs kvs\<rparr>) \<and>
         Tx_Bucket (buckets (snd (Put g kvs bucket key (Some v)))) bucket =
           Some (case Tx_Bucket (buckets kvs) bucket of None \<Rightarrow> [] | Some b \<Rightarrow> b) \<and>
         (\<not> has_key kvs bucket key \<longrightarrow>
          fst (Get g (snd (Put g kvs bucket key (Some v))) bucket key dest) =
            Return (Some ErrNotFound)) \<and>
         (has_key kvs bucket key \<longrightarrow>
          buckets (snd (Put g kvs bucket key (Some v))) = buckets kvs \<and>
          fst (Get g (snd (Put g kvs bucket key (Some v))) bucket key dest) =
            fst (Get g kvs bucket key dest) \<and>
          fst (snd (Get g (snd (Put g kvs bucket key (Some v))) bucket key dest)) =
            fst (snd (Get g kvs bucket key dest)))"
proof -
  let ?b0 = "case Tx_Bucket (buckets kvs) bucket of None \<Rightarrow> [] | Some b \<Rightarrow> b"
  from assms have put: "Put g kvs bucket key (Some v) = AddBucket kvs bucket"
    by (simp add: Put_unencodable)
  from assms(2) have b: "Tx_Bucket (buckets (snd (AddBucket kvs bucket))) bucket = Some ?b0"
    by (rule AddBucket_bucket)
  have absent: "fst (Get g (snd (AddBucket kvs bucket)) bucket key dest) = Return (Some ErrNotFound)"
    if "\<not> has_key kvs bucket key"
  proof -
    from that have "key \<notin> fst ` set ?b0" by (simp add: has_key_def split: option.splits)
    with b show ?thesis by (simp add: Get_absent)
  qed
  have present: "buckets (snd (AddBucket kvs bucket)) = buckets kvs \<and>
      fst (Get g (snd (AddBucket kvs bucket)) bucket key dest) = fst (Get g kvs bucket key dest) \<and>
      fst (snd (Get g (snd (AddBucket kvs bucket)) bucket key dest)) =
        fst (snd (Get g kvs bucket key dest))"
    if "has_key kvs bucket key"
  proof -
    from that assms(2) have same: "buckets (snd (AddBucket kvs bucket)) = buckets kvs"
      by (auto simp: has_key_def AddBucket_named split: option.splits)
    with Get_same_buckets [OF same, of g bucket key dest] show ?thesis by simp
  qed
  from put b assms(2) absent present show ?thesis by (auto simp: AddBucket_named)
qed

text \<open>
  The theorem at a freshly opened store and at a store that holds the key, with a channel
  as the value.
\<close>

theorem Put_unencodable_only_adds_bucket_witness:
  "Encode demo_gob DChan = EncodeError \<and> ''p'' \<noteq> [] \<and> \<not> has_key NewKVStore ''p'' ''k'' \<and>
   Put demo_gob NewKVStore ''p'' ''k'' (Some DChan) =
     (Return None, \<lparr>buckets = [(''p'', [])], txs = [WriteTx]\<rparr>) \<and>
   fst (Get demo_gob (snd (Put demo_gob NewKVStore ''p'' ''k'' (Some DChan))) ''p'' ''k''
          (Some (DStr []))) = Return (Some ErrNotFound) \<and>
   has_key \<lparr>buckets = [(''p'', [(''x'', ''s42'')])], txs = []\<rparr> ''p'' ''x'' \<and>
   Put demo_gob \<lparr>buckets = [(''p'', [(''x'', ''s42'')])], txs = []\<rparr> ''p'' ''x'' (Some DChan) =
     (Return None, \<lparr>buckets = [(''p'', [(''x'', ''s42'')])], txs = [WriteTx]\<rparr>) \<and>
   fst (snd (Get demo_gob
         (snd (Put demo_gob \<lparr>buckets = [(''p'', [(''x'', ''s42'')])], txs = []\<rparr> ''p'' ''x''
                (Some DChan)))
         ''p'' ''x'' (Some (DStr [])))) = Some (DStr ''42'')"
proof -
  have h: "Encode demo_gob DChan = EncodeError" "''p'' \<noteq> []" by (simp_all add: demo_gob_def)
  have k: "\<not> has_key NewKVStore ''p'' ''k''"
    by (simp add: has_key_def Tx_Bucket_def NewKVStore_def)
  have p: "Put demo_gob NewKVStore ''p'' ''k'' (Some DChan) =
      (Return None, \<lparr>buckets = [(''p'', [])], txs = [WriteTx]\<rparr>)"
    by (simp add: run_defs)
  from Put_unencodable_only_adds_bucket [OF h, of NewKVStore "''k''" "Some (DStr [])"] k
  have a: "fst (Get demo_gob (snd (Put demo_gob NewKVStore ''p'' ''k'' (Some DChan))) ''p'' ''k''
          (Some (DStr []))) = Return (Some ErrNotFound)"
    by blast
  let ?kvs = "\<lparr>buckets = [(''p'', [(''x'', ''s42'')])], txs = []\<rparr>"
  have k2: "has_key ?kvs ''p'' ''x''" by (simp add: has_key_def Tx_Bucket_def)
  have p2: "Put demo_gob ?kvs ''p'' ''x'' (Some DChan) =
      (Return None, \<lparr>buckets = [(''p'', [(''x'', ''s42'')])], txs = [WriteTx]\<rparr>)"
    by (simp add: run_defs)
  have g0: "fst (snd (Get demo_gob ?kvs ''p'' ''x'' (Some (DStr [])))) = Some (DStr ''42'')"
    by (simp add: run_defs)
  from Put_unencodable_only_adds_bucket [OF h, of ?kvs "''x''" "Some (DStr [])"] k2
  have "fst (snd (Get demo_gob (snd (Put demo_gob ?kvs ''p'' ''x'' (Some DChan)))
         ''p'' ''x'' (Some (DStr [])))) =
        fst (snd (Get demo_gob ?kvs ''p'' ''x'' (Some (DStr []))))"
    by blast
  then have c: "fst (snd (Get demo_gob (snd (Put demo_gob ?kvs ''p'' ''x'' (Some DChan)))
         ''p'' ''x'' (Some (DStr [])))) = Some (DStr ''42'')"
    by (simp only: g0)
  from h k p a k2 p2 c show ?thesis by blast
qed

text \<open>
  C4 as stated, for every value whose encoding fails, with no write transaction and the
  store left unchanged, fails. On a freshly opened store the call runs a write
  transaction and creates the bucket, and the change shows: \<open>Get\<close> panicked before the call
  and returns \<open>ErrNotFound\<close> after it. Where the key was present, the \<open>Get\<close> after the call
  returns the old value, not \<open>ErrNotFound\<close>. When the encoding fails by a panic, as it does
  on a nil pointer, \<open>Put\<close> panics after \<open>AddBucket\<close> (in general: \<open>Put_encoder_panics\<close>). And
  under the empty bucket name \<open>Put\<close> returns \<open>ErrBucketNameRequired\<close>.
\<close>

theorem Put_unencodable_counterexample:
  "Encode demo_gob DChan = EncodeError \<and>
   Put demo_gob NewKVStore ''p'' ''k'' (Some DChan) =
     (Return None, \<lparr>buckets = [(''p'', [])], txs = [WriteTx]\<rparr>) \<and>
   buckets (snd (Put demo_gob NewKVStore ''p'' ''k'' (Some DChan))) \<noteq> buckets NewKVStore \<and>
   fst (Get demo_gob NewKVStore ''p'' ''k'' (Some (DStr []))) = Panic \<and>
   fst (Get demo_gob (snd (Put demo_gob NewKVStore ''p'' ''k'' (Some DChan))) ''p'' ''k''
          (Some (DStr []))) = Return (Some ErrNotFound) \<and>
   Put demo_gob \<lparr>buckets = [(''p'', [(''x'', ''s42'')])], txs = []\<rparr> ''p'' ''x'' (Some DChan) =
     (Return None, \<lparr>buckets = [(''p'', [(''x'', ''s42'')])], txs = [WriteTx]\<rparr>) \<and>
   Get demo_gob \<lparr>buckets = [(''p'', [(''x'', ''s42'')])], txs = [WriteTx]\<rparr> ''p'' ''x''
       (Some (DStr [])) =
     (Return None, Some (DStr ''42''),
      \<lparr>buckets = [(''p'', [(''x'', ''s42'')])], txs = [ReadTx, WriteTx]\<rparr>) \<and>
   Encode demo_gob DNilPtr = EncodePanic \<and>
   Put demo_gob NewKVStore ''p'' ''k'' (Some DNilPtr) =
     (Panic, \<lparr>buckets = [(''p'', [])], txs = [WriteTx]\<rparr>) \<and>
   Put demo_gob NewKVStore [] ''k'' (Some DChan) =
     (Return (Some ErrBucketNameRequired), \<lparr>buckets = [], txs = [WriteTx]\<rparr>)"
  by (simp add: run_defs)

subsection \<open>The last write wins\<close>

text \<open>
  C6, as the code has it. For every bucket name that is not empty, every key of at least
  one and at most \<open>MaxKeySize\<close> bytes, every first value on which the first \<open>Put\<close> returns
  (with a nil error or with an error; it panics when the encoder does, \<open>Put_panics_iff\<close>)
  and every second value \<open>v2\<close> that the encoder writes in at most \<open>MaxValueSize\<close> bytes and
  the decoder reads back as \<open>v2\<close>: after the two calls of \<open>Put\<close>, \<open>Get\<close> returns a nil error
  and leaves \<open>v2\<close> in the destination, and the buckets are exactly those that the second
  \<open>Put\<close> alone would have left. Nothing of the first value remains.
\<close>

theorem Put_twice_last_wins:
  assumes "bucket \<noteq> []" "key \<noteq> []" "length key \<le> MaxKeySize"
    and "Encode g v2 = Encoded buf2" "length buf2 \<le> MaxValueSize"
    and "Decode g buf2 (Some d) = (None, Some v2)"
    and "fst (Put g kvs bucket key value1) = Return err1"
  shows "fst (Put g (snd (Put g kvs bucket key value1)) bucket key (Some v2)) = Return None \<and>
         fst (Get g (snd (Put g (snd (Put g kvs bucket key value1)) bucket key (Some v2)))
               bucket key (Some d)) = Return None \<and>
         fst (snd (Get g (snd (Put g (snd (Put g kvs bucket key value1)) bucket key (Some v2)))
               bucket key (Some d))) = Some v2 \<and>
         buckets (snd (Put g (snd (Put g kvs bucket key value1)) bucket key (Some v2))) =
           buckets (snd (Put g kvs bucket key (Some v2)))"
proof -
  let ?kvs1 = "snd (Put g kvs bucket key value1)"
  let ?b0 = "case Tx_Bucket (buckets kvs) bucket of None \<Rightarrow> [] | Some b \<Rightarrow> b"
  let ?b1 = "case Tx_Bucket (buckets ?kvs1) bucket of None \<Rightarrow> [] | Some b \<Rightarrow> b"
  note valid = assms(1-5)
  have direct: "buckets (snd (Put g kvs bucket key (Some v2))) =
      node_put (buckets kvs) bucket (node_put ?b0 key buf2)"
    using valid by (rule Put_valid_buckets)
  have after: "buckets (snd (Put g ?kvs1 bucket key (Some v2))) =
      node_put (buckets ?kvs1) bucket (node_put ?b1 key buf2)"
    using valid by (rule Put_valid_buckets)
  from Put_buckets_cases [of g kvs bucket key value1]
  consider "buckets ?kvs1 = buckets kvs"
    | "buckets ?kvs1 = buckets (snd (AddBucket kvs bucket))"
    | buf1 where "buckets ?kvs1 = node_put (buckets kvs) bucket (node_put ?b0 key buf1)"
    by blast
  then have "node_put (buckets ?kvs1) bucket (node_put ?b1 key buf2) =
      node_put (buckets kvs) bucket (node_put ?b0 key buf2)"
  proof cases
    case 1
    then show ?thesis by simp
  next
    case 2
    with AddBucket_bucket [OF assms(1), of kvs] have b1: "?b1 = ?b0" by simp
    show ?thesis
    proof (cases "Tx_Bucket (buckets kvs) bucket")
      case None
      with assms(1) 2 have "buckets ?kvs1 = node_put (buckets kvs) bucket []"
        by (simp add: AddBucket_named)
      with b1 show ?thesis by (simp add: node_put_node_put)
    next
      case (Some b)
      with assms(1) 2 have "buckets ?kvs1 = buckets kvs" by (simp add: AddBucket_named)
      with b1 show ?thesis by simp
    qed
  next
    case 3
    then have "?b1 = node_put ?b0 key buf1" by (simp add: Tx_Bucket_node_put)
    with 3 show ?thesis by (simp add: node_put_node_put)
  qed
  with direct after have same:
    "buckets (snd (Put g ?kvs1 bucket key (Some v2))) = buckets (snd (Put g kvs bucket key (Some v2)))"
    by simp
  from Put_then_Get [OF valid, of ?kvs1 "Some d"] assms(6) same show ?thesis by simp
qed

text \<open>The theorem at a freshly opened store.\<close>

theorem Put_twice_last_wins_witness:
  "''p'' \<noteq> [] \<and> ''x'' \<noteq> [] \<and> length ''x'' \<le> MaxKeySize \<and>
   Encode demo_gob (DStr ''two'') = Encoded ''stwo'' \<and> length ''stwo'' \<le> MaxValueSize \<and>
   Decode demo_gob ''stwo'' (Some (DStr [])) = (None, Some (DStr ''two'')) \<and>
   fst (Put demo_gob NewKVStore ''p'' ''x'' (Some (DStr ''one''))) = Return None \<and>
   Put demo_gob NewKVStore ''p'' ''x'' (Some (DStr ''one'')) =
     (Return None, \<lparr>buckets = [(''p'', [(''x'', ''sone'')])], txs = [WriteTx, WriteTx]\<rparr>) \<and>
   fst (Get demo_gob
         (snd (Put demo_gob (snd (Put demo_gob NewKVStore ''p'' ''x'' (Some (DStr ''one''))))
                ''p'' ''x'' (Some (DStr ''two''))))
         ''p'' ''x'' (Some (DStr []))) = Return None \<and>
   fst (snd (Get demo_gob
         (snd (Put demo_gob (snd (Put demo_gob NewKVStore ''p'' ''x'' (Some (DStr ''one''))))
                ''p'' ''x'' (Some (DStr ''two''))))
         ''p'' ''x'' (Some (DStr [])))) = Some (DStr ''two'') \<and>
   buckets (snd (Put demo_gob (snd (Put demo_gob NewKVStore ''p'' ''x'' (Some (DStr ''one''))))
                  ''p'' ''x'' (Some (DStr ''two'')))) = [(''p'', [(''x'', ''stwo'')])]"
proof -
  have h: "''p'' \<noteq> []" "''x'' \<noteq> []" "length ''x'' \<le> MaxKeySize"
    "Encode demo_gob (DStr ''two'') = Encoded ''stwo''" "length ''stwo'' \<le> MaxValueSize"
    "Decode demo_gob ''stwo'' (Some (DStr [])) = (None, Some (DStr ''two''))"
    by (simp_all add: MaxKeySize_def MaxValueSize_def demo_gob_def)
  have one: "Put demo_gob NewKVStore ''p'' ''x'' (Some (DStr ''one'')) =
      (Return None, \<lparr>buckets = [(''p'', [(''x'', ''sone'')])], txs = [WriteTx, WriteTx]\<rparr>)"
    by (simp add: run_defs)
  have two: "buckets (snd (Put demo_gob NewKVStore ''p'' ''x'' (Some (DStr ''two'')))) =
      [(''p'', [(''x'', ''stwo'')])]"
    by (simp add: run_defs)
  from one have r: "fst (Put demo_gob NewKVStore ''p'' ''x'' (Some (DStr ''one''))) = Return None"
    by simp
  from Put_twice_last_wins [OF h r] h r one two
  show ?thesis by simp
qed

text \<open>
  C6 as stated, for every key and all values, fails. When the encoder refuses the second
  value, the second \<open>Put\<close> returns nil and \<open>Get\<close> yields the first value. Under a key of
  32769 bytes both calls of \<open>Put\<close> return \<open>ErrKeyTooLarge\<close> and \<open>Get\<close> returns
  \<open>ErrNotFound\<close>. The empty key, the empty bucket name and a value of more than
  \<open>MaxValueSize\<close> encoded bytes are refused as well. And when the encoder panics on the
  first value, the first \<open>Put\<close> panics and the run ends there.
\<close>

theorem Put_twice_counterexample:
  "Put demo_gob NewKVStore ''p'' ''x'' (Some (DStr ''one'')) =
     (Return None, \<lparr>buckets = [(''p'', [(''x'', ''sone'')])], txs = [WriteTx, WriteTx]\<rparr>) \<and>
   Put demo_gob \<lparr>buckets = [(''p'', [(''x'', ''sone'')])], txs = [WriteTx, WriteTx]\<rparr>
       ''p'' ''x'' (Some DChan) =
     (Return None,
      \<lparr>buckets = [(''p'', [(''x'', ''sone'')])], txs = [WriteTx, WriteTx, WriteTx]\<rparr>) \<and>
   Get demo_gob \<lparr>buckets = [(''p'', [(''x'', ''sone'')])], txs = [WriteTx, WriteTx, WriteTx]\<rparr>
       ''p'' ''x'' (Some (DStr [])) =
     (Return None, Some (DStr ''one''),
      \<lparr>buckets = [(''p'', [(''x'', ''sone'')])], txs = [ReadTx, WriteTx, WriteTx, WriteTx]\<rparr>) \<and>
   Put demo_gob NewKVStore ''p'' (replicate 32769 CHR ''k'') (Some (DStr ''one'')) =
     (Return (Some ErrKeyTooLarge), \<lparr>buckets = [(''p'', [])], txs = [WriteTx, WriteTx]\<rparr>) \<and>
   Put demo_gob \<lparr>buckets = [(''p'', [])], txs = [WriteTx, WriteTx]\<rparr> ''p''
       (replicate 32769 CHR ''k'') (Some (DStr ''two'')) =
     (Return (Some ErrKeyTooLarge),
      \<lparr>buckets = [(''p'', [])], txs = [WriteTx, WriteTx, WriteTx, WriteTx]\<rparr>) \<and>
   Get demo_gob \<lparr>buckets = [(''p'', [])], txs = [WriteTx, WriteTx, WriteTx, WriteTx]\<rparr> ''p''
       (replicate 32769 CHR ''k'') (Some (DStr [])) =
     (Return (Some ErrNotFound), Some (DStr []),
      \<lparr>buckets = [(''p'', [])], txs = [ReadTx, WriteTx, WriteTx, WriteTx, WriteTx]\<rparr>) \<and>
   fst (Put demo_gob NewKVStore ''p'' [] (Some (DStr ''two''))) = Return (Some ErrKeyRequired) \<and>
   fst (Put demo_gob NewKVStore [] ''x'' (Some (DStr ''two''))) =
     Return (Some ErrBucketNameRequired) \<and>
   fst (Put demo_gob NewKVStore ''p'' ''x'' (Some (DStr (replicate (2 ^ 31) CHR ''v'')))) =
     Return (Some ErrValueTooLarge) \<and>
   Put demo_gob NewKVStore ''p'' ''x'' (Some DNilPtr) =
     (Panic, \<lparr>buckets = [(''p'', [])], txs = [WriteTx]\<rparr>)"
  by (simp add: run_defs)

subsection \<open>Seek and the exact comparison\<close>

text \<open>
  C8. For every bucket that exists and every key not stored in it, \<open>Get\<close> and \<open>Delete\<close>
  return \<open>ErrNotFound\<close> and change no bucket. This is so also when the bucket holds a
  longer key that starts with the key sought: the cursor then stops on an entry (it does
  not run off the end), and the key of that entry is not the key sought.
\<close>

theorem Seek_prefix_is_NotFound:
  assumes "Tx_Bucket (buckets kvs) bucket = Some b" "key \<notin> fst ` set b"
  shows "Get g kvs bucket key dest =
           (Return (Some ErrNotFound), dest, kvs\<lparr>txs := ReadTx # txs kvs\<rparr>) \<and>
         Delete kvs bucket key =
           (Return (Some ErrNotFound), kvs\<lparr>txs := WriteTx # txs kvs\<rparr>) \<and>
         (\<forall>suffix v. (key @ suffix, v) \<in> set b \<longrightarrow>
            (\<exists>k v'. Cursor_Seek b key = (Some k, Some v') \<and> k \<noteq> key))"
proof -
  have "\<exists>k v'. Cursor_Seek b key = (Some k, Some v') \<and> k \<noteq> key"
    if "(key @ suffix, v) \<in> set b" for suffix v
  proof -
    from that have "\<exists>e \<in> set b. key \<le> fst e" using self_le_append [of key suffix] by force
    then have "seek b key \<noteq> None" by (simp add: seek_None_iff)
    with seek_absent [OF assms(2)] show ?thesis by (auto simp: Cursor_Seek_def)
  qed
  with Get_absent [OF assms, of g dest] Delete_absent [OF assms] show ?thesis by blast
qed

text \<open>
  The theorem at a bucket holding \<open>abc\<close>, asked for \<open>ab\<close>: the cursor stops on \<open>abc\<close>.
\<close>

theorem Seek_prefix_is_NotFound_witness:
  "Tx_Bucket (buckets \<lparr>buckets = [(''p'', [(''abc'', ''s1'')])], txs = []\<rparr>) ''p'' =
     Some [(''abc'', ''s1'')] \<and>
   ''ab'' \<notin> fst ` set [(''abc'', ''s1'')] \<and>
   (''ab'' @ ''c'', ''s1'') \<in> set [(''abc'', ''s1'')] \<and>
   Cursor_Seek [(''abc'', ''s1'')] ''ab'' = (Some ''abc'', Some ''s1'') \<and>
   Get demo_gob \<lparr>buckets = [(''p'', [(''abc'', ''s1'')])], txs = []\<rparr> ''p'' ''ab''
       (Some (DStr [])) =
     (Return (Some ErrNotFound), Some (DStr []),
      \<lparr>buckets = [(''p'', [(''abc'', ''s1'')])], txs = [ReadTx]\<rparr>) \<and>
   Delete \<lparr>buckets = [(''p'', [(''abc'', ''s1'')])], txs = []\<rparr> ''p'' ''ab'' =
     (Return (Some ErrNotFound), \<lparr>buckets = [(''p'', [(''abc'', ''s1'')])], txs = [WriteTx]\<rparr>)"
proof -
  have h: "Tx_Bucket (buckets \<lparr>buckets = [(''p'', [(''abc'', ''s1'')])], txs = []\<rparr>) ''p'' =
      Some [(''abc'', ''s1'')]"
    "''ab'' \<notin> fst ` set [(''abc'', ''s1'')]"
    by (simp_all add: Tx_Bucket_def)
  have m: "(''ab'' @ ''c'', ''s1'') \<in> set [(''abc'', ''s1'')]" by simp
  have c: "Cursor_Seek [(''abc'', ''s1'')] ''ab'' = (Some ''abc'', Some ''s1'')"
    by (simp add: Cursor_Seek_def)
  from Seek_prefix_is_NotFound [OF h, of demo_gob "Some (DStr [])"] h m c
  show ?thesis by simp
qed

section \<open>Properties of the poll loop\<close>

subsection \<open>The eviction pass\<close>

lemma map_of_map_delete: "map_of (map_delete key m) k = (if k = key then None else map_of m k)"
  by (induction m) (auto simp: map_delete_def)

lemma cleanKeys_range_fields:
  "maxTime (cleanKeys_range now ks conf) = maxTime conf \<and>
   sleep (cleanKeys_range now ks conf) = sleep conf"
  by (induction ks arbitrary: conf) (auto split: option.splits)

lemma cleanKeys_range_lookup:
  "map_of (keys (cleanKeys_range now ks conf)) k =
     (case map_of (keys conf) k of
        None \<Rightarrow> None
      | Some t \<Rightarrow> if k \<in> set ks \<and> Time_Sub now t > maxTime conf then None else Some t)"
proof (induction ks arbitrary: conf)
  case Nil
  show ?case by (simp split: option.splits)
next
  case (Cons key rest)
  show ?case
  proof (cases "map_of (keys conf) key")
    case None
    with Cons [of conf] show ?thesis by (auto split: option.splits)
  next
    case (Some t)
    show ?thesis
    proof (cases "Time_Sub now t > maxTime conf")
      case True
      with Some Cons [of "conf\<lparr>keys := map_delete key (keys conf)\<rparr>"] show ?thesis
        by (auto simp: map_of_map_delete split: option.splits)
    next
      case False
      with Some Cons [of conf] show ?thesis by (auto split: option.splits)
    qed
  qed
qed

lemma Time_Sub_exact:
  "minDuration \<le> t - u \<Longrightarrow> t - u \<le> maxDuration \<Longrightarrow> Time_Sub t u = t - u"
  by (simp add: Time_Sub_def)

text \<open>
  C9. After \<open>cleanKeys\<close>, a record is in the cache exactly when it was there before and
  its age, the duration \<open>now.Sub(t)\<close>, does not exceed \<open>maxTime\<close>; a record that stays
  keeps its timestamp, and the two durations of the configuration are untouched. With
  \<open>maxTime = 10\<close> and a record marked at 0, the pass at 5 keeps the record and the pass at
  11 removes it. (\<open>Time_Sub_exact\<close>: the age is \<open>now - t\<close> whenever that fits a duration.)
\<close>

theorem cleanKeys_evicts_exactly_the_stale:
  "map_of (keys (cleanKeys now conf)) k =
     (case map_of (keys conf) k of
        None \<Rightarrow> None
      | Some t \<Rightarrow> if Time_Sub now t > maxTime conf then None else Some t) \<and>
   maxTime (cleanKeys now conf) = maxTime conf \<and>
   sleep (cleanKeys now conf) = sleep conf \<and>
   Time_Sub 5 0 = 5 \<and>
   cleanKeys 5 \<lparr>keys = [(''id'', 0)], maxTime = 10, sleep = s\<rparr> =
     \<lparr>keys = [(''id'', 0)], maxTime = 10, sleep = s\<rparr> \<and>
   Time_Sub 11 0 = 11 \<and>
   cleanKeys 11 \<lparr>keys = [(''id'', 0)], maxTime = 10, sleep = s\<rparr> =
     \<lparr>keys = [], maxTime = 10, sleep = s\<rparr>"
proof -
  have "k \<in> set (map fst (keys conf))" if "map_of (keys conf) k = Some t" for t
    using that by (auto dest: map_of_SomeD intro: rev_image_eqI)
  then have "map_of (keys (cleanKeys now conf)) k =
     (case map_of (keys conf) k of
        None \<Rightarrow> None
      | Some t \<Rightarrow> if Time_Sub now t > maxTime conf then None else Some t)"
    unfolding cleanKeys_def cleanKeys_range_lookup by (auto split: option.splits)
  moreover have "Time_Sub 5 0 = 5" "Time_Sub 11 0 = 11"
    by (simp_all add: Time_Sub_def maxDuration_def minDuration_def)
  moreover from this have
    "cleanKeys 5 \<lparr>keys = [(''id'', 0)], maxTime = 10, sleep = s\<rparr> =
       \<lparr>keys = [(''id'', 0)], maxTime = 10, sleep = s\<rparr>"
    "cleanKeys 11 \<lparr>keys = [(''id'', 0)], maxTime = 10, sleep = s\<rparr> =
       \<lparr>keys = [], maxTime = 10, sleep = s\<rparr>"
    by (simp_all add: cleanKeys_def map_delete_def)
  ultimately show ?thesis by (simp add: cleanKeys_def cleanKeys_range_fields)
qed

subsection \<open>A fetch that fails\<close>

text \<open>
  C10. \<open>json.Unmarshal\<close> returns an error on the empty input; that is the first
  hypothesis. Then for every fetch failure (the request fails, the status is not 200, the
  body cannot be read, or the payload does not parse) the cycle hands no item to
  \<open>Download\<close> or \<open>Process\<close>, sends exactly one request, logs what went wrong with the
  fetch and logs that the list could not be parsed. \<open>scrape\<close> returns its trace on every
  input: nothing on these paths ends the process.
\<close>

theorem scrape_skips_cycle_on_fetch_failure:
  assumes "fst (unmarshal []) = Some empty_msg"
    and "http scrape_url = HttpError \<or>
         (\<exists>code body. http scrape_url = HttpResponse code body \<and> code \<noteq> 200) \<or>
         http scrape_url = HttpResponse 200 None \<or>
         (\<exists>bs msg. http scrape_url = HttpResponse 200 (Some bs) \<and> fst (unmarshal bs) = Some msg)"
  shows "processor_calls (scrape http unmarshal) = [] \<and>
         requests_sent (scrape http unmarshal) = 1 \<and>
         Logged CouldNotParse \<in> set (scrape http unmarshal) \<and>
         (http scrape_url = HttpError \<longrightarrow>
            Logged (CouldNotAccess scrape_url) \<in> set (scrape http unmarshal)) \<and>
         (\<forall>code body. http scrape_url = HttpResponse code body \<and> code \<noteq> 200 \<longrightarrow>
            Logged (ReceivedHttpError code) \<in> set (scrape http unmarshal)) \<and>
         (http scrape_url = HttpResponse 200 None \<longrightarrow>
            Logged (CouldNotRead scrape_url) \<in> set (scrape http unmarshal))"
proof -
  from assms(2) consider
      "http scrape_url = HttpError"
    | code body where "http scrape_url = HttpResponse code body" "code \<noteq> 200"
    | "http scrape_url = HttpResponse 200 None"
    | bs msg where "http scrape_url = HttpResponse 200 (Some bs)" "fst (unmarshal bs) = Some msg"
    by blast
  then show ?thesis
  proof cases
    case 1
    with assms(1) show ?thesis
      by (cases "unmarshal []") (simp add: scrape_def get_def)
  next
    case 2
    with assms(1) show ?thesis
      by (cases "unmarshal []") (simp add: scrape_def get_def)
  next
    case 3
    with assms(1) show ?thesis
      by (cases "unmarshal []") (simp add: scrape_def get_def)
  next
    case 4
    then show ?thesis
      by (cases "unmarshal bs") (simp add: scrape_def get_def)
  qed
qed

text \<open>
  The theorem at a server that answers 404, with the whole trace; and, for contrast, a
  cycle that succeeds hands its item over.
\<close>

theorem scrape_skips_cycle_on_fetch_failure_witness:
  "fst (demo_unmarshal []) = Some ''unexpected end of JSON input'' \<and>
   (\<lambda>url. HttpResponse 404 (Some ''[1]'')) scrape_url = HttpResponse 404 (Some ''[1]'') \<and>
   (404::int) \<noteq> 200 \<and>
   scrape (\<lambda>url. HttpResponse 404 (Some ''[1]'')) demo_unmarshal =
     [Logged CheckingForNewPastes, Requested scrape_url, Logged (ReceivedHttpError 404),
      Logged CouldNotParse, Logged (ParseError ''unexpected end of JSON input''),
      Logged (Payload [])] \<and>
   processor_calls (scrape (\<lambda>url. HttpResponse 404 (Some ''[1]'')) demo_unmarshal) = [] \<and>
   requests_sent (scrape (\<lambda>url. HttpResponse 404 (Some ''[1]'')) demo_unmarshal) = 1 \<and>
   processor_calls (scrape (\<lambda>url. HttpResponse 200 (Some ''[1]'')) demo_unmarshal) = [1, 1]"
proof -
  have e: "fst (demo_unmarshal []) = Some ''unexpected end of JSON input''"
    by (simp add: demo_unmarshal_def)
  have f: "(\<lambda>url. HttpResponse 404 (Some ''[1]'')) scrape_url = HttpError \<or>
         (\<exists>code body. (\<lambda>url. HttpResponse 404 (Some ''[1]'')) scrape_url = HttpResponse code body \<and> code \<noteq> 200) \<or>
         (\<lambda>url. HttpResponse 404 (Some ''[1]'')) scrape_url = HttpResponse 200 None \<or>
         (\<exists>bs msg. (\<lambda>url. HttpResponse 404 (Some ''[1]'')) scrape_url = HttpResponse 200 (Some bs) \<and> fst (demo_unmarshal bs) = Some msg)"
    by simp
  have t: "scrape (\<lambda>url. HttpResponse 404 (Some ''[1]'')) demo_unmarshal =
     [Logged CheckingForNewPastes, Requested scrape_url, Logged (ReceivedHttpError 404),
      Logged CouldNotParse, Logged (ParseError ''unexpected end of JSON input''),
      Logged (Payload [])]"
    by (simp add: scrape_def get_def demo_unmarshal_def)
  have ok: "processor_calls (scrape (\<lambda>url. HttpResponse 200 (Some ''[1]'')) demo_unmarshal) = [1, 1]"
    by (simp add: scrape_def get_def demo_unmarshal_def)
  from scrape_skips_cycle_on_fetch_failure [OF e f] e t ok show ?thesis by simp
qed

end
